theory Spec2Isabelle
  imports Complex_Main "HOL-Library.Word"
begin

section \<open>Python strings\<close>

text \<open>
  A Python \<open>str\<close> is a sequence of Unicode code points: slicing and \<open>len\<close> count
  code points, and the source contains literals outside Latin-1. A character is
  therefore modelled by its code point, and an ASCII literal is written \<open>ustr ''...''\<close>.
\<close>

type_synonym pychar = nat
type_synonym pystr = "pychar list"

definition ustr :: "string \<Rightarrow> pystr" where
  "ustr s = map of_char s"

definition newline :: pychar where
  "newline = 10"

definition dash :: pychar where
  "dash = 45"

definition comma :: pychar where
  "comma = 44"

definition dot :: pychar where
  "dot = 46"

text \<open>
  \<open>s.split(sep)\<close> for a separator of one character. The result is never the empty
  list, so the last branch of the \<open>case\<close> is never taken (\<open>py_split_nonempty\<close>).
\<close>

fun py_split :: "'a \<Rightarrow> 'a list \<Rightarrow> 'a list list" where
  "py_split sep [] = [[]]"
| "py_split sep (c # cs) =
     (if c = sep then [] # py_split sep cs
      else (case py_split sep cs of p # ps \<Rightarrow> (c # p) # ps | [] \<Rightarrow> [[c]]))"

text \<open>\<open>sep.join(parts)\<close>.\<close>

fun py_join :: "'a list \<Rightarrow> 'a list list \<Rightarrow> 'a list" where
  "py_join sep [] = []"
| "py_join sep [p] = p"
| "py_join sep (p # q # ps) = p @ sep @ py_join sep (q # ps)"

text \<open>\<open>s.startswith(prefix)\<close>.\<close>

definition startswith :: "'a list \<Rightarrow> 'a list \<Rightarrow> bool" where
  "startswith s pre = (take (length pre) s = pre)"

text \<open>\<open>s.replace(a, b)\<close> for one-character \<open>a\<close> and \<open>b\<close>.\<close>

definition py_replace :: "'a \<Rightarrow> 'a \<Rightarrow> 'a list \<Rightarrow> 'a list" where
  "py_replace a b s = map (\<lambda>c. if c = a then b else c) s"

section \<open>Exceptions\<close>

datatype exn_kind =
  IndexError | ValueError | OverflowError | BinasciiError | OSError | CapacityError
  | LibraryError

datatype py_exn = PyExn (kind: exn_kind) (message: pystr)

text \<open>\<open>xs[i]\<close> for a non-negative index: raises IndexError out of range.\<close>

definition py_index :: "'a list \<Rightarrow> nat \<Rightarrow> py_exn + 'a" where
  "py_index xs i =
     (if i < length xs then Inr (xs ! i)
      else Inl (PyExn IndexError (ustr ''list index out of range'')))"

text \<open>Sequencing of a computation that may raise.\<close>

definition rbind :: "'e + 'a \<Rightarrow> ('a \<Rightarrow> 'e + 'b) \<Rightarrow> 'e + 'b" where
  "rbind m f = (case m of Inl e \<Rightarrow> Inl e | Inr v \<Rightarrow> f v)"

section \<open>Reference number\<close>

text \<open>
  \<^verbatim>\<open>
  def extract_reference_number(doc_name):
      parts = doc_name.split("-")
      if len(parts) >= 4:
          return f"{parts[1]}-{parts[2]}-{parts[3]}"
      elif len(parts) >= 3:
          return "-".join(parts[-3:])
      else:
          return doc_name[:10]
  \<close>
  \<open>parts[-3:]\<close> keeps the last three entries; \<open>doc_name[:10]\<close> never raises.
\<close>

definition extract_reference_number :: "pystr \<Rightarrow> py_exn + pystr" where
  "extract_reference_number doc_name =
     (let parts = py_split dash doc_name in
      if length parts \<ge> 4 then
        rbind (py_index parts 1) (\<lambda>p1.
        rbind (py_index parts 2) (\<lambda>p2.
        rbind (py_index parts 3) (\<lambda>p3.
          Inr (p1 @ [dash] @ p2 @ [dash] @ p3))))
      else if length parts \<ge> 3 then
        Inr (py_join [dash] (drop (length parts - 3) parts))
      else Inr (take 10 doc_name))"

section \<open>Floats\<close>

text \<open>
  A Python \<open>float\<close> is an IEEE 754 double: a finite value with a sign, or an infinity,
  or not-a-number. \<open>Finite s m e\<close> stands for the value \<open>m * 2 ^ e\<close>, negated when
  \<open>s\<close> holds; a double has \<open>m < 2 ^ 53\<close> and \<open>- 1074 \<le> e\<close>. Negative zero is
  \<open>Finite True 0 e\<close>.
\<close>

datatype pyfloat = Finite bool nat int | Infinity bool | NaN

definition pow2 :: "int \<Rightarrow> rat" where
  "pow2 e = (if 0 \<le> e then 2 ^ nat e else 1 / 2 ^ nat (- e))"

text \<open>The magnitude and the value of a finite float, as exact rational numbers.\<close>

fun float_magnitude :: "pyfloat \<Rightarrow> rat" where
  "float_magnitude (Finite s m e) = of_nat m * pow2 e"
| "float_magnitude (Infinity s) = 0"
| "float_magnitude NaN = 0"

fun float_value :: "pyfloat \<Rightarrow> rat" where
  "float_value (Finite s m e) = (if s then - (of_nat m * pow2 e) else of_nat m * pow2 e)"
| "float_value (Infinity s) = 0"
| "float_value NaN = 0"

fun is_finite :: "pyfloat \<Rightarrow> bool" where
  "is_finite (Finite s m e) = True"
| "is_finite (Infinity s) = False"
| "is_finite NaN = False"

text \<open>\<open>x >= 0\<close>: true of both zeros and of plus infinity, false of not-a-number.\<close>

fun float_ge_zero :: "pyfloat \<Rightarrow> bool" where
  "float_ge_zero (Finite s m e) = (\<not> s \<or> m = 0)"
| "float_ge_zero (Infinity s) = (\<not> s)"
| "float_ge_zero NaN = False"

text \<open>The number of bits of a natural number (\<open>int.bit_length\<close>).\<close>

fun bit_length :: "nat \<Rightarrow> nat" where
  "bit_length n = (if n = 0 then 0 else bit_length (n div 2) + 1)"

declare bit_length.simps [simp del]

text \<open>\<open>m / 2 ^ k\<close> rounded to the nearest integer, a tie to the even neighbour.\<close>

definition round_shift :: "nat \<Rightarrow> nat \<Rightarrow> nat" where
  "round_shift m k =
     (if k = 0 then m
      else if m mod 2 ^ k < 2 ^ (k - 1) then m div 2 ^ k
      else if 2 ^ (k - 1) < m mod 2 ^ k then m div 2 ^ k + 1
      else if even (m div 2 ^ k) then m div 2 ^ k else m div 2 ^ k + 1)"

text \<open>
  The exact value \<open>m * 2 ^ e\<close> rounded to a double, to nearest and a tie to even: the
  mantissa keeps at most 53 bits and the exponent stays at or above -1074; a result of
  \<open>2 ^ 1024\<close> or more is the infinity.
\<close>

definition round_to_double :: "bool \<Rightarrow> nat \<Rightarrow> int \<Rightarrow> pyfloat" where
  "round_to_double s m e =
     (let k = nat (max (int (bit_length m) - 53) (- 1074 - e));
          m' = round_shift m k;
          e' = e + int k
      in if m' \<noteq> 0 \<and> 1024 < int (bit_length m') + e' then Infinity s
         else Finite s m' e')"

text \<open>\<open>x * y\<close> on floats: the exact product, rounded once.\<close>

fun float_mul :: "pyfloat \<Rightarrow> pyfloat \<Rightarrow> pyfloat" where
  "float_mul NaN y = NaN"
| "float_mul x NaN = NaN"
| "float_mul (Infinity s) (Infinity t) = Infinity (s \<noteq> t)"
| "float_mul (Infinity s) (Finite t m e) = (if m = 0 then NaN else Infinity (s \<noteq> t))"
| "float_mul (Finite s m e) (Infinity t) = (if m = 0 then NaN else Infinity (s \<noteq> t))"
| "float_mul (Finite s m e) (Finite t n f) = round_to_double (s \<noteq> t) (m * n) (e + f)"

text \<open>The integer 100 as a float, as the product \<open>doc.grand_total * 100\<close> converts it.\<close>

definition hundred :: pyfloat where
  "hundred = Finite False 100 0"

section \<open>Documents\<close>

text \<open>
  The document view read by the encoders (\<open>MockDocument\<close> in the source). The
  encoders test \<open>doctype\<close> with \<open>hasattr\<close> and read \<open>bic\<close> with \<open>getattr\<close> and a
  default, so these attributes may be absent; \<open>custom_odjel\<close> may be \<open>None\<close>.
  The amount is a Python \<open>float\<close>.
\<close>

record document =
  doctype :: "pystr option"
  name :: pystr
  company :: pystr
  grand_total :: pyfloat
  custom_odjel :: "pystr option"
  iban :: "pystr option"
  bic :: "pystr option"

definition label_racun :: pystr where
  "label_racun = ustr ''Ra'' @ [269] @ ustr ''un br.''"

definition label_ponuda :: pystr where
  "label_ponuda = ustr ''Ponuda br.''"

definition label_narudzba :: pystr where
  "label_narudzba = ustr ''Narud'' @ [382] @ ustr ''ba br.''"

definition label_otpremnica :: pystr where
  "label_otpremnica = ustr ''Otpremnica br.''"

definition label_dokument :: pystr where
  "label_dokument = ustr ''Dokument br.''"

definition labels :: "(pystr \<times> pystr) list" where
  "labels =
     [(ustr ''Sales Invoice'', label_racun),
      (ustr ''Quotation'', label_ponuda),
      (ustr ''Purchase Order'', label_narudzba),
      (ustr ''Delivery Note'', label_otpremnica)]"

definition get_document_type_label :: "document \<Rightarrow> pystr" where
  "get_document_type_label doc =
     (case doctype doc of
        Some t \<Rightarrow> (case map_of labels t of Some l \<Rightarrow> l | None \<Rightarrow> label_dokument)
      | None \<Rightarrow> label_dokument)"

text \<open>
  \<^verbatim>\<open>
  def get_iban_by_department(doc):
      # Privremeno: koristi uvijek isti IBAN za testiranje
      return "HR9123600001503417252"
  \<close>
  The lookup by department that follows the \<open>return\<close> is commented out in the source.
\<close>

definition get_iban_by_department :: "document \<Rightarrow> pystr" where
  "get_iban_by_department doc = ustr ''HR9123600001503417252''"

section \<open>Number formatting\<close>

definition digit_char :: "nat \<Rightarrow> pychar" where
  "digit_char d = 48 + d"

text \<open>The decimal digits of a natural number, as \<open>str\<close> prints them.\<close>

fun digits_of :: "nat \<Rightarrow> pystr" where
  "digits_of n =
     (if n < 10 then [digit_char n]
      else digits_of (n div 10) @ [digit_char (n mod 10)])"

declare digits_of.simps [simp del]

text \<open>
  \<open>int(x)\<close> of a float truncates towards zero; it raises for an infinity and for
  not-a-number.
\<close>

fun py_int :: "pyfloat \<Rightarrow> py_exn + int" where
  "py_int (Finite s m e) =
     (let t = (if 0 \<le> e then m * 2 ^ nat e else m div 2 ^ nat (- e))
      in Inr (if s then - int t else int t))"
| "py_int (Infinity s) =
     Inl (PyExn OverflowError (ustr ''cannot convert float infinity to integer''))"
| "py_int NaN = Inl (PyExn ValueError (ustr ''cannot convert float NaN to integer''))"

text \<open>
  Rounding an exact value to the nearest integer, a tie to the even neighbour: what
  \<open>round(x)\<close> returns for a finite float of this value, and how \<open>.2f\<close> rounds.
\<close>

definition py_round :: "rat \<Rightarrow> int" where
  "py_round x =
     (let f = \<lfloor>x\<rfloor>; r = x - of_int f in
      if r < 1 / 2 then f
      else if 1 / 2 < r then f + 1
      else if even f then f else f + 1)"

text \<open>
  \<open>"{:015d}".format(n)\<close>: the sign, if any, then zeros up to a total width of 15, then
  the digits; a number with more digits is printed in full.
\<close>

definition format_015d :: "int \<Rightarrow> pystr" where
  "format_015d n =
     (let sign = (if n < 0 then [dash] else []);
          ds = digits_of (nat \<bar>n\<bar>)
      in sign @ replicate (15 - length sign - length ds) (digit_char 0) @ ds)"

text \<open>
  A non-negative value rounded to two decimals (a tie to the even neighbour): the integer
  digits, a point and two digits.
\<close>

definition fixed2 :: "rat \<Rightarrow> pystr" where
  "fixed2 x =
     (let n = nat (py_round (x * 100))
      in digits_of (n div 100) @ [dot]
           @ [digit_char (n mod 100 div 10), digit_char (n mod 10)])"

text \<open>
  \<open>f"{x:.2f}"\<close> of a float: a minus sign when the sign bit is set (negative zero
  included), then the magnitude rounded to two decimals; \<open>inf\<close>, \<open>-inf\<close> and \<open>nan\<close>
  for the other floats.
\<close>

fun format_2f :: "pyfloat \<Rightarrow> pystr" where
  "format_2f (Finite s m e) = (if s then [dash] else []) @ fixed2 (of_nat m * pow2 e)"
| "format_2f (Infinity s) = (if s then [dash] else []) @ ustr ''inf''"
| "format_2f NaN = ustr ''nan''"

section \<open>Payload encoders\<close>

text \<open>
  \<^verbatim>\<open>
  def generate_hub30_payload(doc):
      iban = get_iban_by_department(doc)
      poziv_na_broj = extract_reference_number(doc.name)
      doc_label = get_document_type_label(doc)
      company = doc.company
      description = f"Racun br. {poziv_na_broj}"
      company_street = "Racka 1C"
      company_postal_code_and_city = "10250 Jezdovec"   (with z-caron, U+017E)
      lines = [ "HRVHUB30", "EUR", "{:015d}".format(int(doc.grand_total * 100)),
                "", "", "", company, company_street, company_postal_code_and_city,
                iban, "HR00", poziv_na_broj, "", description, "" ]
      return "\n".join(lines)
  \<close>
  \<open>hub30_lines\<close> is the local list \<open>lines\<close>.
\<close>

definition company_street :: pystr where
  "company_street = ustr ''Racka 1C''"

definition company_postal_code_and_city :: pystr where
  "company_postal_code_and_city = ustr ''10250 Je'' @ [382] @ ustr ''dovec''"

text \<open>
  \<open>hub30_amount\<close> is the third entry, \<open>"{:015d}".format(int(doc.grand_total * 100))\<close>;
  it raises when \<open>int\<close> does.
\<close>

definition hub30_amount :: "document \<Rightarrow> py_exn + pystr" where
  "hub30_amount doc =
     rbind (py_int (float_mul (grand_total doc) hundred)) (\<lambda>cents. Inr (format_015d cents))"

definition hub30_lines :: "document \<Rightarrow> py_exn + pystr list" where
  "hub30_lines doc =
     (let iban = get_iban_by_department doc in
      rbind (extract_reference_number (name doc)) (\<lambda>poziv_na_broj.
        let doc_label = get_document_type_label doc;
            company = company doc;
            description = ustr ''Racun br. '' @ poziv_na_broj
        in rbind (hub30_amount doc) (\<lambda>amount. Inr
          [ustr ''HRVHUB30'',
           ustr ''EUR'',
           amount,
           [],
           [],
           [],
           company,
           company_street,
           company_postal_code_and_city,
           iban,
           ustr ''HR00'',
           poziv_na_broj,
           [],
           description,
           []])))"

definition generate_hub30_payload :: "document \<Rightarrow> py_exn + pystr" where
  "generate_hub30_payload doc =
     rbind (hub30_lines doc) (\<lambda>lines. Inr (py_join [newline] lines))"

text \<open>
  \<^verbatim>\<open>
  def generate_bcd_payload(doc):
      iban = get_iban_by_department(doc)
      bic = getattr(doc, "bic", "ZABAHR2XXXX")
      amount = f"EUR{doc.grand_total:.2f}".replace(",", ".")
      reference = extract_reference_number(doc.name)
      doc_label = get_document_type_label(doc)
      description = f"{doc_label} {reference}"
      company = doc.company
      lines = [ "BCD", "002", "1", "SCT", bic, company, iban, amount,
                "", reference, "", description ]
      return "\n".join(lines)
  \<close>
\<close>

definition bcd_amount :: "document \<Rightarrow> pystr" where
  "bcd_amount doc = py_replace comma dot (ustr ''EUR'' @ format_2f (grand_total doc))"

definition bcd_lines :: "document \<Rightarrow> py_exn + pystr list" where
  "bcd_lines doc =
     (let iban = get_iban_by_department doc;
          bic = (case bic doc of Some b \<Rightarrow> b | None \<Rightarrow> ustr ''ZABAHR2XXXX'');
          amount = bcd_amount doc
      in
      rbind (extract_reference_number (name doc)) (\<lambda>reference.
        let doc_label = get_document_type_label doc;
            description = doc_label @ ustr '' '' @ reference;
            company = company doc
        in Inr
          [ustr ''BCD'',
           ustr ''002'',
           ustr ''1'',
           ustr ''SCT'',
           bic,
           company,
           iban,
           amount,
           [],
           reference,
           [],
           description]))"

definition generate_bcd_payload :: "document \<Rightarrow> py_exn + pystr" where
  "generate_bcd_payload doc =
     rbind (bcd_lines doc) (\<lambda>lines. Inr (py_join [newline] lines))"

section \<open>Raster images\<close>

text \<open>
  The imaging library is not part of the program; its operations are modelled as the
  library documents them, for 8-bit RGB rasters, the mode both callers of
  \<open>auto_crop_white\<close> convert to. An image has a size and rows of pixels, top to
  bottom; \<open>wf_image\<close> says that the rows fill the size.
\<close>

type_synonym byte = "8 word"
type_synonym pixel = "byte \<times> byte \<times> byte"

record image =
  im_width :: nat
  im_height :: nat
  im_data :: "pixel list list"

definition wf_image :: "image \<Rightarrow> bool" where
  "wf_image img =
     (length (im_data img) = im_height img
      \<and> list_all (\<lambda>row. length row = im_width img) (im_data img))"

definition white :: pixel where
  "white = (255, 255, 255)"

definition black :: pixel where
  "black = (0, 0, 0)"

text \<open>\<open>Image.new(mode, size, color)\<close>.\<close>

definition Image_new :: "nat \<Rightarrow> nat \<Rightarrow> pixel \<Rightarrow> image" where
  "Image_new w h colour =
     \<lparr>im_width = w, im_height = h, im_data = replicate h (replicate w colour)\<rparr>"

definition getpixel :: "image \<Rightarrow> nat \<Rightarrow> nat \<Rightarrow> pixel" where
  "getpixel img x y = im_data img ! y ! x"

text \<open>\<open>ImageChops.difference\<close>: the absolute difference, channel by channel.\<close>

definition channel_difference :: "byte \<Rightarrow> byte \<Rightarrow> byte" where
  "channel_difference a b = (if b \<le> a then a - b else b - a)"

fun pixel_difference :: "pixel \<Rightarrow> pixel \<Rightarrow> pixel" where
  "pixel_difference (r1, g1, b1) (r2, g2, b2) =
     (channel_difference r1 r2, channel_difference g1 g2, channel_difference b1 b2)"

definition difference :: "image \<Rightarrow> image \<Rightarrow> image" where
  "difference img1 img2 =
     \<lparr>im_width = im_width img1, im_height = im_height img1,
      im_data = map2 (map2 pixel_difference) (im_data img1) (im_data img2)\<rparr>"

text \<open>
  \<open>Image.getbbox()\<close>: the bounding box (left, upper, right, lower) of the non-zero
  pixels, right and lower exclusive, or \<open>None\<close> when every pixel is zero.
\<close>

definition getbbox :: "image \<Rightarrow> (nat \<times> nat \<times> nat \<times> nat) option" where
  "getbbox img =
     (let cols = filter (\<lambda>x. list_ex (\<lambda>y. getpixel img x y \<noteq> black) [0..<im_height img])
                   [0..<im_width img];
          rows = filter (\<lambda>y. list_ex (\<lambda>x. getpixel img x y \<noteq> black) [0..<im_width img])
                   [0..<im_height img]
      in if rows = [] then None
         else Some (hd cols, hd rows, Suc (last cols), Suc (last rows)))"

text \<open>
  \<open>Image.crop(box)\<close>: the region of the box; a pixel of the box outside the image is
  black. The boxes of \<open>getbbox\<close> lie inside the image (\<open>getbbox_inside\<close>).
\<close>

fun crop :: "image \<Rightarrow> nat \<times> nat \<times> nat \<times> nat \<Rightarrow> image" where
  "crop img (left, upper, right, lower) =
     \<lparr>im_width = right - left, im_height = lower - upper,
      im_data =
        map (\<lambda>y. map (\<lambda>x. if x < im_width img \<and> y < im_height img
                            then getpixel img x y else black)
                   [left..<right])
            [upper..<lower]\<rparr>"

declare crop.simps [simp del]

text \<open>
  \<^verbatim>\<open>
  def auto_crop_white(img):
      bg = Image.new(img.mode, img.size, "white")
      diff = ImageChops.difference(img, bg)
      bbox = diff.getbbox()
      if bbox:
          return img.crop(bbox)
      return img
  \<close>
\<close>

definition auto_crop_white :: "image \<Rightarrow> image" where
  "auto_crop_white img =
     (let bg = Image_new (im_width img) (im_height img) white;
          diff = difference img bg;
          bbox = getbbox diff
      in case bbox of Some box \<Rightarrow> crop img box | None \<Rightarrow> img)"

section \<open>The content of an image\<close>

text \<open>
  The columns and rows of an image that hold a pixel other than white, in increasing
  order. They state what \<open>auto_crop_white\<close> keeps; the program does not compute them.
\<close>

definition nonwhite :: "image \<Rightarrow> nat \<Rightarrow> nat \<Rightarrow> bool" where
  "nonwhite img x y = (getpixel img x y \<noteq> white)"

definition content_cols :: "image \<Rightarrow> nat list" where
  "content_cols img =
     filter (\<lambda>x. list_ex (\<lambda>y. nonwhite img x y) [0..<im_height img]) [0..<im_width img]"

definition content_rows :: "image \<Rightarrow> nat list" where
  "content_rows img =
     filter (\<lambda>y. list_ex (\<lambda>x. nonwhite img x y) [0..<im_width img]) [0..<im_height img]"

definition content_box :: "image \<Rightarrow> nat \<times> nat \<times> nat \<times> nat" where
  "content_box img =
     (hd (content_cols img), hd (content_rows img),
      Suc (last (content_cols img)), Suc (last (content_rows img)))"

text \<open>An image is entirely white when none of its pixels differs from white.\<close>

definition all_white :: "image \<Rightarrow> bool" where
  "all_white img = list_all (list_all (\<lambda>p. p = white)) (im_data img)"

section \<open>Base64\<close>

text \<open>
  \<open>base64.b64encode\<close> and \<open>base64.b64decode\<close> of the standard library. The decoder
  runs in its default mode: characters outside the alphabet are skipped, a complete
  padding ends the input, and an incomplete last group raises \<open>binascii.Error\<close>.
\<close>

definition b64_char :: "nat \<Rightarrow> pychar" where
  "b64_char v =
     (if v < 26 then 65 + v
      else if v < 52 then 97 + (v - 26)
      else if v < 62 then 48 + (v - 52)
      else if v = 62 then 43 else 47)"

definition b64_value :: "pychar \<Rightarrow> nat option" where
  "b64_value c =
     (if 65 \<le> c \<and> c \<le> 90 then Some (c - 65)
      else if 97 \<le> c \<and> c \<le> 122 then Some (c - 71)
      else if 48 \<le> c \<and> c \<le> 57 then Some (c + 4)
      else if c = 43 then Some 62
      else if c = 47 then Some 63
      else None)"

definition b64_pad :: pychar where
  "b64_pad = 61"

fun b64encode :: "byte list \<Rightarrow> pystr" where
  "b64encode [] = []"
| "b64encode [a] =
     [b64_char (unat a div 4), b64_char (unat a mod 4 * 16), b64_pad, b64_pad]"
| "b64encode [a, b] =
     [b64_char (unat a div 4), b64_char (unat a mod 4 * 16 + unat b div 16),
      b64_char (unat b mod 16 * 4), b64_pad]"
| "b64encode (a # b # c # rest) =
     [b64_char (unat a div 4), b64_char (unat a mod 4 * 16 + unat b div 16),
      b64_char (unat b mod 16 * 4 + unat c div 64), b64_char (unat c mod 64)]
     @ b64encode rest"

text \<open>
  The decoder's loop over the characters, with its state: the position in the current
  group of four, the bits left over from the previous character, the padding characters
  seen in a row and the bytes written so far.
\<close>

fun a2b_loop :: "nat \<Rightarrow> nat \<Rightarrow> nat \<Rightarrow> byte list \<Rightarrow> pystr \<Rightarrow> py_exn + byte list" where
  "a2b_loop quad_pos leftchar pads out [] =
     (if quad_pos = 0 then Inr out
      else if quad_pos = 1 then
        Inl (PyExn BinasciiError (ustr ''Invalid base64-encoded string''))
      else Inl (PyExn BinasciiError (ustr ''Incorrect padding'')))"
| "a2b_loop quad_pos leftchar pads out (ch # rest) =
     (if ch = b64_pad then
        (if 2 \<le> quad_pos \<and> 4 \<le> quad_pos + (pads + 1) then Inr out
         else a2b_loop quad_pos leftchar (if 2 \<le> quad_pos then pads + 1 else pads) out rest)
      else
        (case b64_value ch of
           None \<Rightarrow> a2b_loop quad_pos leftchar pads out rest
         | Some v \<Rightarrow>
             (if quad_pos = 0 then a2b_loop 1 v 0 out rest
              else if quad_pos = 1 then
                a2b_loop 2 (v mod 16) 0 (out @ [of_nat (leftchar * 4 + v div 16)]) rest
              else if quad_pos = 2 then
                a2b_loop 3 (v mod 4) 0 (out @ [of_nat (leftchar * 16 + v div 4)]) rest
              else a2b_loop 0 0 0 (out @ [of_nat (leftchar * 64 + v)]) rest)))"

text \<open>A \<open>str\<close> argument must be ASCII.\<close>

definition b64decode :: "pystr \<Rightarrow> py_exn + byte list" where
  "b64decode s =
     (if list_ex (\<lambda>c. 128 \<le> c) s then
        Inl (PyExn ValueError (ustr ''string argument should contain only ASCII characters''))
      else a2b_loop 0 0 0 [] s)"

section \<open>Output packager\<close>

text \<open>
  The world the program acts on: the files, the lines printed, and which paths can be
  opened for writing.
\<close>

record world =
  files :: "pystr \<rightharpoonup> byte list"
  stdout :: "pystr list"
  can_open :: "pystr \<Rightarrow> bool"

definition py_print :: "pystr \<Rightarrow> world \<Rightarrow> world" where
  "py_print line w = w\<lparr>stdout := stdout w @ [line]\<rparr>"

text \<open>\<open>with open(filename, "wb") as f: f.write(data)\<close>.\<close>

definition write_file :: "pystr \<Rightarrow> byte list \<Rightarrow> world \<Rightarrow> py_exn + world" where
  "write_file filename data w =
     (if can_open w filename then Inr (w\<lparr>files := (files w)(filename \<mapsto> data)\<rparr>)
      else Inl (PyExn OSError filename))"

definition data_uri_prefix :: pystr where
  "data_uri_prefix = ustr ''data:image/png;base64,''"

text \<open>
  \<^verbatim>\<open>
  def buffer_to_data_uri(buf):
      return f"data:image/png;base64,{base64.b64encode(buf.getvalue()).decode()}"
  \<close>
\<close>

definition buffer_to_data_uri :: "byte list \<Rightarrow> pystr" where
  "buffer_to_data_uri buf = data_uri_prefix @ b64encode buf"

text \<open>
  \<^verbatim>\<open>
  def save_data_uri_to_file(data_uri, filename):
      if data_uri.startswith("data:image/png;base64,"):
          base64_data = data_uri.split(",")[1]
          image_data = base64.b64decode(base64_data)
          with open(filename, "wb") as f:
              f.write(image_data)
          print(f"Slika spremljena: {filename}")
  \<close>
  There is no \<open>else\<close>: for any other string the function returns at once.
\<close>

definition save_data_uri_to_file :: "pystr \<Rightarrow> pystr \<Rightarrow> world \<Rightarrow> py_exn + world" where
  "save_data_uri_to_file data_uri filename w =
     (if startswith data_uri data_uri_prefix then
        rbind (py_index (py_split comma data_uri) 1) (\<lambda>base64_data.
        rbind (b64decode base64_data) (\<lambda>image_data.
        rbind (write_file filename image_data w) (\<lambda>w'.
          Inr (py_print (ustr ''Slika spremljena: '' @ filename) w'))))
      else Inr w)"

section \<open>Symbol renderers\<close>

text \<open>
  The symbol encoders (\<open>pdf417\<close>, \<open>qrcode\<close>, \<open>barcode\<close>) and the PNG writer are
  libraries outside the program. They are parameters of the model: each call either
  raises or returns a value. \<open>qr_make_image\<close> stands for the construction of the
  \<open>QRCode\<close> at error correction M, \<open>add_data\<close>, \<open>make(fit=True)\<close> and \<open>make_image\<close>.
\<close>

record barcode_options =
  module_width :: rat
  module_height :: rat
  quiet_zone :: rat
  font_size :: rat

record ('c, 'r, 'k, 'b) libraries =
  pdf417_encode :: "pystr \<Rightarrow> nat \<Rightarrow> nat \<Rightarrow> py_exn + 'c"
  pdf417_render_image :: "'c \<Rightarrow> rat \<Rightarrow> rat \<Rightarrow> py_exn + 'r"
  qr_make_image :: "pystr \<Rightarrow> rat \<Rightarrow> rat \<Rightarrow> py_exn + 'r"
  convert_rgb :: "'r \<Rightarrow> py_exn + image"
  save_png :: "image \<Rightarrow> py_exn + byte list"
  get_barcode_class :: "pystr \<Rightarrow> py_exn + 'k"
  barcode_new :: "'k \<Rightarrow> pystr \<Rightarrow> py_exn + 'b"
  barcode_write :: "'b \<Rightarrow> barcode_options \<Rightarrow> py_exn + byte list"

text \<open>
  \<^verbatim>\<open>
  def get_pdf417(data, scale=3, ratio=2.0):
      try:
          codes = pdf417.encode(str(data), columns=9, security_level=2)
          image = pdf417.render_image(codes, scale=scale, ratio=ratio)
          image = image.convert("RGB")
          image = auto_crop_white(image)
          buf = BytesIO()
          image.save(buf, format="PNG")
          return buffer_to_data_uri(buf)
      except Exception as e:
          print(f"PDF417 greska: {e}")      (with s-caron, U+0161)
          return ""
  \<close>
  \<open>pdf417_try\<close> is the body of the \<open>try\<close>.
\<close>

definition pdf417_try ::
  "('c, 'r, 'k, 'b) libraries \<Rightarrow> pystr \<Rightarrow> rat \<Rightarrow> rat \<Rightarrow> py_exn + pystr" where
  "pdf417_try lib data scale ratio =
     rbind (pdf417_encode lib data 9 2) (\<lambda>codes.
     rbind (pdf417_render_image lib codes scale ratio) (\<lambda>image.
     rbind (convert_rgb lib image) (\<lambda>image.
       let image = auto_crop_white image in
       rbind (save_png lib image) (\<lambda>buf.
         Inr (buffer_to_data_uri buf)))))"


text \<open>
  \<^verbatim>\<open>
  def get_barcode_image(data, barcode_type="code128", module_width=2, module_height=50):
      try:
          cls = barcode.get_barcode_class(barcode_type)
          code = cls(str(data), writer=ImageWriter())
          opts = {"module_width": module_width, "module_height": module_height,
                  "quiet_zone": 6.5, "font_size": 10}
          buf = BytesIO()
          code.write(buf, options=opts)
          return buffer_to_data_uri(buf)
      except Exception as e:
          print(f"Greska pri generiranju barkoda: {e}")
          return ""
  \<close>
\<close>

definition barcode_try ::
  "('c, 'r, 'k, 'b) libraries \<Rightarrow> pystr \<Rightarrow> pystr \<Rightarrow> rat \<Rightarrow> rat \<Rightarrow> py_exn + pystr" where
  "barcode_try lib data barcode_type mw mh =
     rbind (get_barcode_class lib barcode_type) (\<lambda>cls.
     rbind (barcode_new lib cls data) (\<lambda>code.
       let opts = \<lparr>module_width = mw, module_height = mh,
                   quiet_zone = 13 / 2, font_size = 10\<rparr> in
       rbind (barcode_write lib code opts) (\<lambda>buf.
         Inr (buffer_to_data_uri buf))))"


text \<open>
  \<^verbatim>\<open>
  def get_qr_code(data, box_size=10, border=1):
      try:
          qr = qrcode.QRCode(error_correction=qrcode.constants.ERROR_CORRECT_M,
                             box_size=box_size, border=border)
          qr.add_data(str(data))
          qr.make(fit=True)
          img = qr.make_image(fill_color="black", back_color="white")
          img = img.convert("RGB")
          img = auto_crop_white(img)
          buf = BytesIO()
          img.save(buf, format="PNG")
          return buffer_to_data_uri(buf)
      except Exception as e:
          print(f"QR kod greska: {e}")
          return ""
  \<close>
\<close>

definition qr_try ::
  "('c, 'r, 'k, 'b) libraries \<Rightarrow> pystr \<Rightarrow> rat \<Rightarrow> rat \<Rightarrow> py_exn + pystr" where
  "qr_try lib data box_size border =
     rbind (qr_make_image lib data box_size border) (\<lambda>img.
     rbind (convert_rgb lib img) (\<lambda>img.
       let img = auto_crop_white img in
       rbind (save_png lib img) (\<lambda>buf.
         Inr (buffer_to_data_uri buf))))"


section \<open>A library and a world for the examples\<close>


definition dot_image :: image where
  "dot_image =
     \<lparr>im_width = 3, im_height = 3,
      im_data = [[white, white, white], [white, black, white], [white, white, white]]\<rparr>"


definition empty_world :: world where
  "empty_world = \<lparr>files = Map.empty, stdout = [], can_open = (\<lambda>path. True)\<rparr>"

section \<open>Documents of the example run\<close>

text \<open>
  \<open>test_data_standard\<close> of the source's example run, and the defaults of
  \<open>MockDocument\<close> for an empty dictionary.
\<close>

definition doc_standard :: document where
  "doc_standard =
     \<lparr>doctype = Some (ustr ''Sales Invoice''),
      name = ustr ''005-2024-00123'',
      company = ustr ''Test Tvrtka d.o.o.'',
      grand_total = Finite False 2500 0,
      custom_odjel = Some (ustr ''Prodaja''),
      iban = Some (ustr ''HR1234567890123456789''),
      bic = Some (ustr ''ZABAHR2XXXX'')\<rparr>"

definition doc_default :: document where
  "doc_default =
     \<lparr>doctype = Some (ustr ''Sales Invoice''),
      name = ustr ''ACC-SINV-2024-00001'',
      company = ustr ''Moja Tvrtka d.o.o.'',
      grand_total = Finite False 1500 0,
      custom_odjel = None,
      iban = Some (ustr ''HR1234567890123456789''),
      bic = Some (ustr ''ZABAHR2XXXX'')\<rparr>"

text \<open>
  The doubles that the literals \<open>19.999\<close> and \<open>0.29\<close> denote, the double \<open>1e307\<close>,
  and negative zero.
\<close>

definition float_19_999 :: pyfloat where
  "float_19_999 = Finite False 5629218059236409 (- 48)"

definition float_0_29 :: pyfloat where
  "float_0_29 = Finite False 5224175567749775 (- 54)"

definition float_1e307 :: pyfloat where
  "float_1e307 = Finite False 8016673440035891 967"

definition negative_zero :: pyfloat where
  "negative_zero = Finite True 0 0"

section \<open>Reading decimal strings\<close>

text \<open>
  What a reader of a payload does with a field of digits: these two definitions state
  the properties of the amount fields and are not part of the program.
\<close>

definition is_digit :: "pychar \<Rightarrow> bool" where
  "is_digit c = (48 \<le> c \<and> c \<le> 57)"

definition decimal_value :: "pystr \<Rightarrow> nat" where
  "decimal_value s = foldl (\<lambda>acc c. 10 * acc + (c - 48)) 0 s"

section \<open>Splitting and joining\<close>

lemma py_split_nonempty: "py_split sep s \<noteq> []"
  by (induction s) (auto split: list.splits)

lemma length_py_split: "length (py_split sep s) = Suc (count_list s sep)"
  by (induction s) (auto split: list.splits)

lemma py_split_no_sep: "p \<in> set (py_split sep s) \<Longrightarrow> sep \<notin> set p"
proof (induction s arbitrary: p)
  case Nil
  then show ?case by simp
next
  case (Cons c cs)
  obtain q qs where q: "py_split sep cs = q # qs"
    using py_split_nonempty [of sep cs] by (cases "py_split sep cs") auto
  show ?case
  proof (cases "c = sep")
    case True
    with Cons show ?thesis by auto
  next
    case False
    with Cons.prems q have "p = c # q \<or> p \<in> set qs" by simp
    then show ?thesis
      using Cons.IH [of q] Cons.IH [of p] q False by auto
  qed
qed

lemma py_join_py_split: "py_join [sep] (py_split sep s) = s"
proof (induction s)
  case Nil
  show ?case by simp
next
  case (Cons c cs)
  obtain q qs where q: "py_split sep cs = q # qs"
    using py_split_nonempty [of sep cs] by (cases "py_split sep cs") auto
  show ?case
  proof (cases "c = sep")
    case True
    with Cons q show ?thesis by simp
  next
    case False
    with Cons q show ?thesis by (cases qs) auto
  qed
qed

lemma py_split_free: "sep \<notin> set s \<Longrightarrow> py_split sep s = [s]"
  by (induction s) auto

lemma py_split_append:
  "sep \<notin> set p \<Longrightarrow> py_split sep (p @ sep # s) = p # py_split sep s"
  by (induction p) auto

lemma py_split_py_join:
  "fs \<noteq> [] \<Longrightarrow> \<forall>f \<in> set fs. sep \<notin> set f \<Longrightarrow> py_split sep (py_join [sep] fs) = fs"
proof (induction fs)
  case Nil
  then show ?case by simp
next
  case (Cons f fs)
  show ?case
  proof (cases fs)
    case Nil
    with Cons.prems show ?thesis by (simp add: py_split_free)
  next
    case (Cons g gs)
    with Cons.prems Cons.IH show ?thesis by (simp add: py_split_append)
  qed
qed

section \<open>Digits\<close>

lemma digits_of_small: "n < 10 \<Longrightarrow> digits_of n = [digit_char n]"
  by (simp add: digits_of.simps)

lemma digits_of_large:
  "10 \<le> n \<Longrightarrow> digits_of n = digits_of (n div 10) @ [digit_char (n mod 10)]"
  by (subst digits_of.simps) simp

lemma digits_of_nonempty: "digits_of n \<noteq> []"
  by (subst digits_of.simps) simp

lemma digits_of_digits: "c \<in> set (digits_of n) \<Longrightarrow> is_digit c"
proof (induction n arbitrary: c rule: digits_of.induct)
  case (1 n)
  show ?case
  proof (cases "n < 10")
    case True
    with "1.prems" show ?thesis
      by (simp add: digits_of_small is_digit_def digit_char_def)
  next
    case False
    then have "digits_of n = digits_of (n div 10) @ [digit_char (n mod 10)]"
      by (simp add: digits_of_large)
    with "1.prems" have "c \<in> set (digits_of (n div 10)) \<or> c = digit_char (n mod 10)"
      by auto
    then show ?thesis
    proof
      assume "c \<in> set (digits_of (n div 10))"
      with False "1.IH" show ?thesis by simp
    next
      assume "c = digit_char (n mod 10)"
      then show ?thesis by (simp add: is_digit_def digit_char_def)
    qed
  qed
qed

lemma decimal_value_snoc: "decimal_value (s @ [c]) = 10 * decimal_value s + (c - 48)"
  by (simp add: decimal_value_def)

lemma decimal_value_digits_of: "decimal_value (digits_of n) = n"
proof (induction n rule: digits_of.induct)
  case (1 n)
  show ?case
  proof (cases "n < 10")
    case True
    then show ?thesis
      by (simp add: digits_of_small decimal_value_def digit_char_def)
  next
    case False
    then have "digits_of n = digits_of (n div 10) @ [digit_char (n mod 10)]"
      by (simp add: digits_of_large)
    with False "1.IH" show ?thesis
      by (simp add: decimal_value_snoc digit_char_def)
  qed
qed

lemma length_digits_of: "n < 10 ^ k \<Longrightarrow> 0 < k \<Longrightarrow> length (digits_of n) \<le> k"
proof (induction n arbitrary: k rule: digits_of.induct)
  case (1 n)
  show ?case
  proof (cases "n < 10")
    case True
    with "1.prems" show ?thesis by (simp add: digits_of_small)
  next
    case False
    then have unf: "digits_of n = digits_of (n div 10) @ [digit_char (n mod 10)]"
      by (simp add: digits_of_large)
    obtain j where k: "k = Suc j"
      using "1.prems" by (cases k) auto
    have "j \<noteq> 0"
      using False "1.prems" k by (cases j) auto
    moreover have "n div 10 < 10 ^ j"
      using "1.prems" k by (simp add: less_mult_imp_div_less mult.commute)
    ultimately have "length (digits_of (n div 10)) \<le> j"
      using "1.IH" [of j] False by simp
    with unf k show ?thesis by simp
  qed
qed

section \<open>The reference number\<close>

lemma py_split_subset: "p \<in> set (py_split sep s) \<Longrightarrow> set p \<subseteq> set s"
proof (induction s arbitrary: p)
  case Nil
  then show ?case by simp
next
  case (Cons c cs)
  obtain q qs where q: "py_split sep cs = q # qs"
    using py_split_nonempty [of sep cs] by (cases "py_split sep cs") auto
  show ?case
  proof (cases "c = sep")
    case True
    with Cons show ?thesis by auto
  next
    case False
    with Cons.prems q have "p = c # q \<or> p \<in> set qs" by simp
    then show ?thesis
      using Cons.IH [of q] Cons.IH [of p] q by auto
  qed
qed

lemma extract_reference_number_four:
  assumes "4 \<le> length (py_split dash s)"
  shows "extract_reference_number s =
           Inr (py_split dash s ! 1 @ [dash] @ py_split dash s ! 2 @ [dash] @ py_split dash s ! 3)"
  using assms by (simp add: extract_reference_number_def Let_def py_index_def rbind_def)

lemma extract_reference_number_three:
  assumes "length (py_split dash s) = 3"
  shows "extract_reference_number s = Inr s"
  using assms py_join_py_split [of dash s]
  by (simp add: extract_reference_number_def Let_def)

lemma extract_reference_number_short:
  assumes "length (py_split dash s) < 3"
  shows "extract_reference_number s = Inr (take 10 s)"
  using assms by (simp add: extract_reference_number_def Let_def)

lemma extract_reference_number_returns: "\<exists>r. extract_reference_number s = Inr r"
proof -
  consider "4 \<le> length (py_split dash s)" | "length (py_split dash s) = 3"
    | "length (py_split dash s) < 3"
    by linarith
  then show ?thesis
    using extract_reference_number_four extract_reference_number_three
      extract_reference_number_short
    by cases blast+
qed

lemma extract_reference_number_chars:
  assumes "extract_reference_number s = Inr r"
  shows "set r \<subseteq> set s"
proof -
  consider (four) "4 \<le> length (py_split dash s)" | (three) "length (py_split dash s) = 3"
    | (short) "length (py_split dash s) < 3"
    by linarith
  then show ?thesis
  proof cases
    case four
    then have "count_list s dash \<noteq> 0"
      by (simp add: length_py_split)
    then have d: "dash \<in> set s"
      by (simp add: count_list_0_iff)
    have sub: "set (py_split dash s ! i) \<subseteq> set s" if "i < length (py_split dash s)" for i
      by (rule py_split_subset [of _ dash]) (simp add: that)
    have s1: "set (py_split dash s ! 1) \<subseteq> set s"
      using four by (intro sub) simp
    have s2: "set (py_split dash s ! 2) \<subseteq> set s"
      using four by (intro sub) simp
    have s3: "set (py_split dash s ! 3) \<subseteq> set s"
      using four by (intro sub) simp
    have "r = py_split dash s ! 1 @ [dash] @ py_split dash s ! 2 @ [dash] @ py_split dash s ! 3"
      using assms extract_reference_number_four [OF four] by simp
    then have "set r = set (py_split dash s ! 1) \<union> set (py_split dash s ! 2)
        \<union> set (py_split dash s ! 3) \<union> {dash}"
      by auto
    with d s1 s2 s3 show ?thesis by blast
  next
    case three
    then have "r = s"
      using assms extract_reference_number_three [of s] by simp
    then show ?thesis by simp
  next
    case short
    then have "r = take 10 s"
      using assms extract_reference_number_short [of s] by simp
    then show ?thesis by (simp add: set_take_subset)
  qed
qed

text \<open>
  C4. Reference-number extraction returns for every identifier and never raises. The
  segments are the pieces of the identifier between its dashes. With four or more segments
  the result is segments 1, 2 and 3 joined by dashes; otherwise, with three or more
  segments, it is the last three joined by dashes; otherwise it is the first 10 characters
  of the identifier, or the whole identifier when it is shorter. The three examples of the
  specification are as stated.
\<close>

theorem extract_reference_number_spec:
  "(\<exists>r. extract_reference_number s = Inr r)
   \<and> py_join [dash] (py_split dash s) = s
   \<and> (\<forall>p \<in> set (py_split dash s). dash \<notin> set p)
   \<and> (4 \<le> length (py_split dash s) \<longrightarrow>
        extract_reference_number s =
          Inr (py_join [dash] [py_split dash s ! 1, py_split dash s ! 2, py_split dash s ! 3]))
   \<and> (\<not> 4 \<le> length (py_split dash s) \<and> 3 \<le> length (py_split dash s) \<longrightarrow>
        extract_reference_number s =
          Inr (py_join [dash] (drop (length (py_split dash s) - 3) (py_split dash s))))
   \<and> (\<not> 3 \<le> length (py_split dash s) \<longrightarrow>
        extract_reference_number s = Inr (take 10 s))
   \<and> (length s \<le> 10 \<and> \<not> 3 \<le> length (py_split dash s) \<longrightarrow>
        extract_reference_number s = Inr s)
   \<and> extract_reference_number (ustr ''ACC-SINV-2024-00001'') = Inr (ustr ''SINV-2024-00001'')
   \<and> extract_reference_number (ustr ''005-2024-00123'') = Inr (ustr ''005-2024-00123'')
   \<and> extract_reference_number (ustr ''AB'') = Inr (ustr ''AB'')"
proof -
  have total: "\<exists>r. extract_reference_number s = Inr r"
    by (rule extract_reference_number_returns)
  have segs: "py_join [dash] (py_split dash s) = s"
    by (rule py_join_py_split)
  have nodash: "\<forall>p \<in> set (py_split dash s). dash \<notin> set p"
    by (blast dest: py_split_no_sep)
  have four: "4 \<le> length (py_split dash s) \<longrightarrow>
        extract_reference_number s =
          Inr (py_join [dash] [py_split dash s ! 1, py_split dash s ! 2, py_split dash s ! 3])"
    using extract_reference_number_four [of s] by simp
  have three: "\<not> 4 \<le> length (py_split dash s) \<and> 3 \<le> length (py_split dash s) \<longrightarrow>
        extract_reference_number s =
          Inr (py_join [dash] (drop (length (py_split dash s) - 3) (py_split dash s)))"
    by (simp add: extract_reference_number_def Let_def)
  have short: "\<not> 3 \<le> length (py_split dash s) \<longrightarrow>
        extract_reference_number s = Inr (take 10 s)"
    using extract_reference_number_short [of s] by simp
  have whole: "length s \<le> 10 \<and> \<not> 3 \<le> length (py_split dash s) \<longrightarrow>
        extract_reference_number s = Inr s"
    using short by simp
  have e1: "extract_reference_number (ustr ''ACC-SINV-2024-00001'') = Inr (ustr ''SINV-2024-00001'')"
    by (simp add: extract_reference_number_def ustr_def dash_def py_index_def rbind_def)
  have e2: "extract_reference_number (ustr ''005-2024-00123'') = Inr (ustr ''005-2024-00123'')"
    by (simp add: extract_reference_number_def ustr_def dash_def py_index_def rbind_def)
  have e3: "extract_reference_number (ustr ''AB'') = Inr (ustr ''AB'')"
    by (simp add: extract_reference_number_def ustr_def dash_def py_index_def rbind_def)
  from total segs nodash four three short whole e1 e2 e3 show ?thesis
    by blast
qed

theorem extract_reference_number_spec_witness:
  "4 \<le> length (py_split dash (ustr ''INV-A-B-C-D''))
   \<and> extract_reference_number (ustr ''INV-A-B-C-D'') = Inr (ustr ''A-B-C'')
   \<and> \<not> 4 \<le> length (py_split dash (ustr ''7-2025-00042''))
   \<and> 3 \<le> length (py_split dash (ustr ''7-2025-00042''))
   \<and> extract_reference_number (ustr ''7-2025-00042'') = Inr (ustr ''7-2025-00042'')
   \<and> \<not> 3 \<le> length (py_split dash (ustr ''INVOICE-20250001''))
   \<and> extract_reference_number (ustr ''INVOICE-20250001'') = Inr (ustr ''INVOICE-20'')
   \<and> py_split dash (ustr ''7-2025-00042'') = [ustr ''7'', ustr ''2025'', ustr ''00042'']
   \<and> dash \<notin> set (ustr ''2025'')"
  using extract_reference_number_spec [of "ustr ''INV-A-B-C-D''"]
    extract_reference_number_spec [of "ustr ''7-2025-00042''"]
    extract_reference_number_spec [of "ustr ''INVOICE-20250001''"]
  by (simp add: ustr_def dash_def)

section \<open>Rounding\<close>

lemma floor_rat_numeral_div: "\<lfloor>numeral a / numeral b :: rat\<rfloor> = numeral a div numeral b"
  using floor_divide_of_int_eq [of "numeral a" "numeral b", where ?'a = rat] by simp

lemma py_round_of_int: "py_round (of_int k) = k"
  by (simp add: py_round_def)

lemma py_round_nonneg: "0 \<le> x \<Longrightarrow> 0 \<le> py_round x"
  by (auto simp: py_round_def Let_def)

lemma py_round_close: "\<bar>x - of_int (py_round x)\<bar> \<le> 1 / 2"
proof -
  define f where "f = \<lfloor>x\<rfloor>"
  have "rat_of_int f \<le> x" and "x < rat_of_int f + 1"
    unfolding f_def by linarith+
  then show ?thesis
    unfolding py_round_def Let_def f_def [symmetric]
    by (auto simp: abs_if)
qed

lemma bit_length_zero: "bit_length 0 = 0"
  by (simp add: bit_length.simps)

lemma bit_length_pos: "0 < n \<Longrightarrow> bit_length n = bit_length (n div 2) + 1"
  by (subst bit_length.simps) simp

lemma pow2_nonneg: "0 \<le> pow2 e" and pow2_pos: "0 < pow2 e"
  by (simp_all add: pow2_def)

lemma float_magnitude_nonneg: "0 \<le> float_magnitude x"
  by (cases x) (simp_all add: pow2_nonneg)

text \<open>\<open>int\<close> of a finite float is the integer part of its magnitude, with its sign.\<close>

lemma py_int_Finite:
  "py_int (Finite s m e) =
     Inr (if s then - \<lfloor>of_nat m * pow2 e\<rfloor> else \<lfloor>of_nat m * pow2 e\<rfloor>)"
proof (cases "0 \<le> e")
  case True
  have "\<lfloor>rat_of_nat m * 2 ^ nat e\<rfloor> = int (m * 2 ^ nat e)"
    by (metis floor_of_nat of_nat_mult of_nat_numeral of_nat_power)
  with True show ?thesis
    by (simp add: pow2_def)
next
  case False
  have "\<lfloor>rat_of_nat m / rat_of_nat (2 ^ nat (- e))\<rfloor> = int (m div 2 ^ nat (- e))"
    by (rule floor_divide_of_nat_eq)
  with False show ?thesis
    by (simp add: pow2_def)
qed

lemma py_int_finite: "is_finite x \<Longrightarrow> \<exists>n. py_int x = Inr n"
  by (cases x) (simp_all add: Let_def)

lemma py_int_not_finite: "\<not> is_finite x \<Longrightarrow> isl (py_int x)"
  by (cases x) simp_all

text \<open>
  The named doubles: each is the double nearest to its literal, within half a unit of its
  last mantissa bit, with a mantissa of 53 bits; and their products with 100.
\<close>

lemma float_19_999_nearest:
  "\<bar>float_value float_19_999 - 19999 / 1000\<bar> \<le> pow2 (- 49)"
  "bit_length 5629218059236409 = 53"
  by (simp_all add: float_19_999_def pow2_def bit_length_zero bit_length_pos)

lemma float_0_29_nearest:
  "\<bar>float_value float_0_29 - 29 / 100\<bar> \<le> pow2 (- 55)"
  "bit_length 5224175567749775 = 53"
  by (simp_all add: float_0_29_def pow2_def bit_length_zero bit_length_pos)

lemma float_mul_19_999: "float_mul float_19_999 hundred = Finite False 8795653217556889 (- 42)"
  by (simp add: float_19_999_def hundred_def round_to_double_def round_shift_def Let_def
      bit_length_zero bit_length_pos)

lemma float_mul_0_29: "float_mul float_0_29 hundred = Finite False 8162774324609023 (- 48)"
  by (simp add: float_0_29_def hundred_def round_to_double_def round_shift_def Let_def
      bit_length_zero bit_length_pos)

lemma float_mul_1e307: "float_mul float_1e307 hundred = Infinity False"
  by (simp add: float_1e307_def hundred_def round_to_double_def round_shift_def Let_def
      bit_length_zero bit_length_pos)

lemma float_mul_whole:
  "float_mul (Finite False 2500 0) hundred = Finite False 250000 0"
  "float_mul (Finite False 1500 0) hundred = Finite False 150000 0"
  "float_mul negative_zero hundred = Finite True 0 0"
  by (simp_all add: hundred_def negative_zero_def round_to_double_def round_shift_def Let_def
      bit_length_zero bit_length_pos)

lemma float_mul_0_35:
  "float_mul (Finite False 6305039478318694 (- 54)) hundred = Finite False 4925812092436480 (- 47)"
  "py_int (Finite False 4925812092436480 (- 47)) = Inr 35"
  by (simp_all add: hundred_def round_to_double_def round_shift_def Let_def
      bit_length_zero bit_length_pos)

section \<open>The payload encoders\<close>

lemma py_replace_absent: "a \<notin> set s \<Longrightarrow> py_replace a b s = s"
  by (induction s) (auto simp: py_replace_def)

lemma replicate_unfold: "0 < n \<Longrightarrow> replicate n x = x # replicate (n - 1) x"
  by (cases n) auto

lemma hub30_amount_finite:
  assumes "is_finite (float_mul (grand_total doc) hundred)"
  shows "\<exists>a. hub30_amount doc = Inr a"
  using py_int_finite [OF assms] by (auto simp: hub30_amount_def rbind_def)

lemma hub30_amount_not_finite:
  assumes "\<not> is_finite (float_mul (grand_total doc) hundred)"
  shows "isl (hub30_amount doc)"
  using py_int_not_finite [OF assms] by (auto simp: hub30_amount_def rbind_def isl_def)

lemma hub30_lines_Inr:
  assumes "extract_reference_number (name doc) = Inr r" and "hub30_amount doc = Inr a"
  shows "hub30_lines doc =
           Inr [ustr ''HRVHUB30'', ustr ''EUR'', a, [], [], [],
                company doc, company_street, company_postal_code_and_city,
                get_iban_by_department doc, ustr ''HR00'', r, [],
                ustr ''Racun br. '' @ r, []]"
  using assms by (simp add: hub30_lines_def rbind_def Let_def)

lemma hub30_lines_Inl:
  assumes "hub30_amount doc = Inl x"
  shows "hub30_lines doc = Inl x" and "generate_hub30_payload doc = Inl x"
proof -
  obtain r where r: "extract_reference_number (name doc) = Inr r"
    using extract_reference_number_returns by blast
  show l: "hub30_lines doc = Inl x"
    using assms r by (simp add: hub30_lines_def rbind_def Let_def)
  show "generate_hub30_payload doc = Inl x"
    by (simp add: generate_hub30_payload_def l rbind_def)
qed

lemma bcd_lines_Inr:
  assumes "extract_reference_number (name doc) = Inr r"
  shows "bcd_lines doc =
           Inr [ustr ''BCD'', ustr ''002'', ustr ''1'', ustr ''SCT'',
                (case bic doc of Some b \<Rightarrow> b | None \<Rightarrow> ustr ''ZABAHR2XXXX''),
                company doc, get_iban_by_department doc, bcd_amount doc, [], r, [],
                get_document_type_label doc @ ustr '' '' @ r]"
  using assms by (simp add: bcd_lines_def rbind_def Let_def)

lemma hub30_amount_examples:
  "hub30_amount doc_default = Inr (ustr ''000000000150000'')"
  "hub30_amount doc_standard = Inr (ustr ''000000000250000'')"
  by (simp_all add: doc_default_def doc_standard_def hub30_amount_def float_mul_whole rbind_def
      format_015d_def digits_of_small digits_of_large digit_char_def ustr_def replicate_unfold)



section \<open>The HUB30 amount\<close>

lemma format_015d_nonneg:
  assumes "0 \<le> n" and "n < 10 ^ 15"
  shows "length (format_015d n) = 15"
    and "\<forall>c \<in> set (format_015d n). is_digit c"
proof -
  have "nat \<bar>n\<bar> < 10 ^ 15"
    using assms by (simp add: nat_less_iff)
  then have len: "length (digits_of (nat \<bar>n\<bar>)) \<le> 15"
    by (rule length_digits_of) simp
  have unf: "format_015d n =
      replicate (15 - length (digits_of (nat \<bar>n\<bar>))) (digit_char 0) @ digits_of (nat \<bar>n\<bar>)"
    using assms by (simp add: format_015d_def Let_def)
  show "length (format_015d n) = 15"
    using len by (simp add: unf)
  show "\<forall>c \<in> set (format_015d n). is_digit c"
    using digits_of_digits by (auto simp: unf is_digit_def digit_char_def)
qed

text \<open>
  The amount field is the integer part of the float product, never its rounding; the two
  agree when the product is a whole number.
\<close>

lemma hub30_amount_floor:
  assumes "float_mul (grand_total doc) hundred = Finite False m e"
  shows "hub30_amount doc = Inr (format_015d \<lfloor>float_value (float_mul (grand_total doc) hundred)\<rfloor>)"
  by (simp add: hub30_amount_def assms py_int_Finite rbind_def del: py_int.simps)

lemma hub30_amount_whole_cents:
  assumes "float_mul (grand_total doc) hundred = Finite False m e"
    and "float_value (float_mul (grand_total doc) hundred) = of_int k"
  shows "hub30_amount doc
           = Inr (format_015d (py_round (float_value (float_mul (grand_total doc) hundred))))"
  using assms(2) by (simp add: hub30_amount_floor [OF assms(1)] py_round_of_int)

lemma hub30_amount_width:
  assumes "float_mul (grand_total doc) hundred = Finite False m e"
    and "float_value (float_mul (grand_total doc) hundred) < 10 ^ 15"
    and "hub30_amount doc = Inr a"
  shows "length a = 15 \<and> (\<forall>c \<in> set a. is_digit c)"
proof -
  let ?v = "float_value (float_mul (grand_total doc) hundred)"
  have "0 \<le> ?v"
    by (simp add: assms(1) pow2_nonneg)
  then have nonneg: "0 \<le> \<lfloor>?v\<rfloor>"
    by simp
  have "\<lfloor>?v\<rfloor> < 10 ^ 15"
    using assms(2) by (simp add: floor_less_iff)
  with nonneg format_015d_nonneg [of "\<lfloor>?v\<rfloor>"] assms(3)
  show ?thesis
    by (simp add: hub30_amount_floor [OF assms(1)])
qed

text \<open>
  C1. At the amount 19.999 the third field of the HUB30 payload is
  \<open>000000000001999\<close>: the float product 1999.8999999999999 is cut to its integer part by
  \<open>int\<close>, where rounding gives 2000 and the field \<open>000000000002000\<close>. The BCD payload
  of the same document rounds and carries \<open>EUR20.00\<close>. At the amount 0.29 the product is
  28.999999999999996 and the field holds 28 cents, where rounding gives 29 and the BCD
  payload carries \<open>EUR0.29\<close>.
\<close>

theorem hub30_amount_truncates:
  "projr (hub30_lines (doc_standard\<lparr>grand_total := float_19_999\<rparr>)) ! 2
     = ustr ''000000000001999''
   \<and> py_split newline (projr (generate_hub30_payload (doc_standard\<lparr>grand_total := float_19_999\<rparr>))) ! 2
     = ustr ''000000000001999''
   \<and> format_015d (py_round (float_value (float_mul float_19_999 hundred)))
     = ustr ''000000000002000''
   \<and> bcd_amount (doc_standard\<lparr>grand_total := float_19_999\<rparr>) = ustr ''EUR20.00''
   \<and> projr (hub30_lines (doc_standard\<lparr>grand_total := float_0_29\<rparr>)) ! 2
     = ustr ''000000000000028''
   \<and> format_015d (py_round (float_value (float_mul float_0_29 hundred)))
     = ustr ''000000000000029''
   \<and> bcd_amount (doc_standard\<lparr>grand_total := float_0_29\<rparr>) = ustr ''EUR0.29''"
proof -
  have r: "extract_reference_number (name (doc_standard\<lparr>grand_total := g\<rparr>))
      = Inr (ustr ''005-2024-00123'')" for g
    by (simp add: doc_standard_def extract_reference_number_def ustr_def dash_def)
  have a: "hub30_amount (doc_standard\<lparr>grand_total := float_19_999\<rparr>)
      = Inr (ustr ''000000000001999'')"
    by (simp add: hub30_amount_def float_mul_19_999 rbind_def format_015d_def
        digits_of_small digits_of_large digit_char_def ustr_def replicate_unfold)
  have b: "hub30_amount (doc_standard\<lparr>grand_total := float_0_29\<rparr>)
      = Inr (ustr ''000000000000028'')"
    by (simp add: hub30_amount_def float_mul_0_29 rbind_def format_015d_def
        digits_of_small digits_of_large digit_char_def ustr_def replicate_unfold)
  have f1: "projr (hub30_lines (doc_standard\<lparr>grand_total := float_19_999\<rparr>)) ! 2
     = ustr ''000000000001999''"
    by (simp add: hub30_lines_Inr [OF r a])
  have f2: "py_split newline (projr (generate_hub30_payload (doc_standard\<lparr>grand_total := float_19_999\<rparr>))) ! 2
     = ustr ''000000000001999''"
    unfolding generate_hub30_payload_def hub30_lines_Inr [OF r a] rbind_def
    by (simp add: ustr_def newline_def)
  have f3: "format_015d (py_round (float_value (float_mul float_19_999 hundred)))
     = ustr ''000000000002000''"
    by (simp add: float_mul_19_999 pow2_def py_round_def floor_rat_numeral_div format_015d_def
        digits_of_small digits_of_large digit_char_def ustr_def replicate_unfold)
  have f4: "bcd_amount (doc_standard\<lparr>grand_total := float_19_999\<rparr>) = ustr ''EUR20.00''"
    by (simp add: bcd_amount_def float_19_999_def fixed2_def pow2_def py_round_def
        floor_rat_numeral_div digits_of_small digits_of_large digit_char_def ustr_def
        py_replace_def comma_def dot_def)
  have f5: "projr (hub30_lines (doc_standard\<lparr>grand_total := float_0_29\<rparr>)) ! 2
     = ustr ''000000000000028''"
    by (simp add: hub30_lines_Inr [OF r b])
  have f6: "format_015d (py_round (float_value (float_mul float_0_29 hundred)))
     = ustr ''000000000000029''"
    by (simp add: float_mul_0_29 pow2_def py_round_def floor_rat_numeral_div format_015d_def
        digits_of_small digits_of_large digit_char_def ustr_def replicate_unfold)
  have f7: "bcd_amount (doc_standard\<lparr>grand_total := float_0_29\<rparr>) = ustr ''EUR0.29''"
    by (simp add: bcd_amount_def float_0_29_def fixed2_def pow2_def py_round_def
        floor_rat_numeral_div digits_of_small digits_of_large digit_char_def ustr_def
        py_replace_def comma_def dot_def)
  from f1 f2 f3 f4 f5 f6 f7 show ?thesis by (intro conjI)
qed

section \<open>The fields of the payloads\<close>

lemma format_015d_chars: "c \<in> set (format_015d n) \<Longrightarrow> c = dash \<or> is_digit c"
  using digits_of_digits [of c "nat \<bar>n\<bar>"]
  by (auto simp: format_015d_def Let_def is_digit_def digit_char_def split: if_splits)

lemma is_digit_digit_char: "k < 10 \<Longrightarrow> is_digit (digit_char k)"
  by (simp add: is_digit_def digit_char_def)

lemma fixed2_chars:
  assumes "c \<in> set (fixed2 x)"
  shows "c = dot \<or> is_digit c"
proof -
  define n where "n = nat (py_round (x * 100))"
  have "fixed2 x = digits_of (n div 100)
      @ [dot, digit_char (n mod 100 div 10), digit_char (n mod 10)]"
    by (simp add: fixed2_def Let_def n_def)
  with assms have "c \<in> set (digits_of (n div 100)) \<or> c = dot
      \<or> c = digit_char (n mod 100 div 10) \<or> c = digit_char (n mod 10)"
    by auto
  moreover have "is_digit (digit_char (n mod 100 div 10))"
    by (rule is_digit_digit_char) (simp add: less_mult_imp_div_less)
  moreover have "is_digit (digit_char (n mod 10))"
    by (rule is_digit_digit_char) simp
  ultimately show ?thesis
    using digits_of_digits [of c "n div 100"] by blast
qed

lemma format_2f_no_newline: "newline \<notin> set (format_2f x)"
proof (cases x)
  case (Finite s m e)
  have "newline \<notin> set (fixed2 (of_nat m * pow2 e))"
    using fixed2_chars [of newline "of_nat m * pow2 e"]
    by (auto simp: newline_def dot_def is_digit_def)
  with Finite show ?thesis
    by (simp add: newline_def dash_def)
next
  case (Infinity s)
  then show ?thesis
    by (simp add: ustr_def newline_def dash_def)
next
  case NaN
  then show ?thesis
    by (simp add: ustr_def newline_def)
qed

lemma hub30_amount_no_newline:
  assumes "hub30_amount doc = Inr a"
  shows "newline \<notin> set a"
proof -
  obtain n where "a = format_015d n"
    using assms by (auto simp: hub30_amount_def rbind_def split: sum.splits)
  then show ?thesis
    using format_015d_chars [of newline n]
    by (auto simp: newline_def dash_def is_digit_def)
qed

lemma bcd_amount_no_newline: "newline \<notin> set (bcd_amount doc)"
proof
  assume "newline \<in> set (bcd_amount doc)"
  then have "newline \<in> set (ustr ''EUR'' @ format_2f (grand_total doc))"
    by (auto simp: bcd_amount_def py_replace_def newline_def dot_def split: if_splits)
  then have "newline \<in> set (format_2f (grand_total doc))"
    by (simp add: ustr_def newline_def)
  then show False
    using format_2f_no_newline by blast
qed

lemma label_no_newline: "newline \<notin> set (get_document_type_label doc)"
proof -
  have d: "newline \<notin> set label_dokument"
    by (simp add: label_dokument_def ustr_def newline_def)
  have "newline \<notin> set l" if "map_of labels t = Some l" for t l
  proof -
    have "(t, l) \<in> set labels"
      using that by (rule map_of_SomeD)
    then have "l = label_racun \<or> l = label_ponuda \<or> l = label_narudzba \<or> l = label_otpremnica"
      by (auto simp: labels_def)
    then show ?thesis
      by (auto simp: label_racun_def label_ponuda_def label_narudzba_def
          label_otpremnica_def ustr_def newline_def)
  qed
  with d show ?thesis
    by (simp add: get_document_type_label_def split: option.splits)
qed

lemma reference_no_newline:
  assumes "extract_reference_number s = Inr r" and "newline \<notin> set s"
  shows "newline \<notin> set r"
  using extract_reference_number_chars [OF assms(1)] assms(2) by blast

lemma constants_no_newline:
  "newline \<notin> set (ustr ''HRVHUB30'')" "newline \<notin> set (ustr ''EUR'')"
  "newline \<notin> set company_street" "newline \<notin> set company_postal_code_and_city"
  "newline \<notin> set (get_iban_by_department doc)" "newline \<notin> set (ustr ''HR00'')"
  "newline \<notin> set (ustr ''Racun br. '')"
  "newline \<notin> set (ustr ''BCD'')" "newline \<notin> set (ustr ''002'')"
  "newline \<notin> set (ustr ''1'')" "newline \<notin> set (ustr ''SCT'')"
  "newline \<notin> set (ustr ''ZABAHR2XXXX'')" "newline \<notin> set (ustr '' '')"
  by (simp_all add: ustr_def newline_def company_street_def
      company_postal_code_and_city_def get_iban_by_department_def)

text \<open>The BCD payload of a document without newlines in its texts splits into its lines.\<close>

lemma bcd_payload_split:
  assumes "newline \<notin> set (company doc)" and "newline \<notin> set (name doc)"
    and "\<And>b. bic doc = Some b \<Longrightarrow> newline \<notin> set b"
    and r: "extract_reference_number (name doc) = Inr r"
  shows "generate_bcd_payload doc =
           Inr (py_join [newline]
             [ustr ''BCD'', ustr ''002'', ustr ''1'', ustr ''SCT'',
              (case bic doc of Some b \<Rightarrow> b | None \<Rightarrow> ustr ''ZABAHR2XXXX''),
              company doc, get_iban_by_department doc, bcd_amount doc, [], r, [],
              get_document_type_label doc @ ustr '' '' @ r])"
    and "py_split newline (py_join [newline]
             [ustr ''BCD'', ustr ''002'', ustr ''1'', ustr ''SCT'',
              (case bic doc of Some b \<Rightarrow> b | None \<Rightarrow> ustr ''ZABAHR2XXXX''),
              company doc, get_iban_by_department doc, bcd_amount doc, [], r, [],
              get_document_type_label doc @ ustr '' '' @ r])
         = [ustr ''BCD'', ustr ''002'', ustr ''1'', ustr ''SCT'',
              (case bic doc of Some b \<Rightarrow> b | None \<Rightarrow> ustr ''ZABAHR2XXXX''),
              company doc, get_iban_by_department doc, bcd_amount doc, [], r, [],
              get_document_type_label doc @ ustr '' '' @ r]"
proof -
  let ?bic = "case bic doc of Some b \<Rightarrow> b | None \<Rightarrow> ustr ''ZABAHR2XXXX''"
  let ?ls = "[ustr ''BCD'', ustr ''002'', ustr ''1'', ustr ''SCT'', ?bic,
         company doc, get_iban_by_department doc, bcd_amount doc, [], r, [],
         get_document_type_label doc @ ustr '' '' @ r]"
  have rn: "newline \<notin> set r"
    using r assms(2) by (rule reference_no_newline)
  have bn: "newline \<notin> set ?bic"
    using assms(3) constants_no_newline(12) by (cases "bic doc") simp_all
  show "generate_bcd_payload doc = Inr (py_join [newline] ?ls)"
    by (simp add: generate_bcd_payload_def bcd_lines_Inr [OF r] rbind_def)
  have free: "\<forall>f \<in> set ?ls. newline \<notin> set f"
    using rn bn assms(1) bcd_amount_no_newline [of doc] label_no_newline [of doc]
      constants_no_newline
    by simp
  show "py_split newline (py_join [newline] ?ls) = ?ls"
    by (rule py_split_py_join [OF _ free]) simp
qed

text \<open>A product with 100 that is not finite makes the HUB30 encoder raise.\<close>

lemma hub30_payload_overflow:
  "generate_hub30_payload (doc_standard\<lparr>grand_total := float_1e307\<rparr>)
     = Inl (PyExn OverflowError (ustr ''cannot convert float infinity to integer''))"
  "generate_hub30_payload (doc_standard\<lparr>grand_total := NaN\<rparr>)
     = Inl (PyExn ValueError (ustr ''cannot convert float NaN to integer''))"
proof -
  have "hub30_amount (doc_standard\<lparr>grand_total := float_1e307\<rparr>)
      = Inl (PyExn OverflowError (ustr ''cannot convert float infinity to integer''))"
    by (simp add: hub30_amount_def float_mul_1e307 rbind_def)
  then show "generate_hub30_payload (doc_standard\<lparr>grand_total := float_1e307\<rparr>)
     = Inl (PyExn OverflowError (ustr ''cannot convert float infinity to integer''))"
    by (rule hub30_lines_Inl)
  have "hub30_amount (doc_standard\<lparr>grand_total := NaN\<rparr>)
      = Inl (PyExn ValueError (ustr ''cannot convert float NaN to integer''))"
    by (simp add: hub30_amount_def rbind_def)
  then show "generate_hub30_payload (doc_standard\<lparr>grand_total := NaN\<rparr>)
     = Inl (PyExn ValueError (ustr ''cannot convert float NaN to integer''))"
    by (rule hub30_lines_Inl)
qed

text \<open>
  C2 (amended). For every document whose company name and identifier hold no newline
  character and whose amount times 100 is a finite float, \<open>generate_hub30_payload\<close>
  returns a string that splits on newline into exactly 15 fields, in this order:
  \<open>HRVHUB30\<close>, the currency code, the amount, three blank payer fields, the payee name,
  street, postal code and city, the payee IBAN, the model code, the reference number, the
  blank purpose code, the description and a blank reserved field.
\<close>

theorem hub30_payload_fields:
  assumes "newline \<notin> set (company doc)" and "newline \<notin> set (name doc)"
    and "is_finite (float_mul (grand_total doc) hundred)"
  shows "\<exists>payload r a.
      generate_hub30_payload doc = Inr payload
    \<and> extract_reference_number (name doc) = Inr r
    \<and> hub30_amount doc = Inr a
    \<and> py_split newline payload =
        [ustr ''HRVHUB30'', ustr ''EUR'', a, [], [], [],
         company doc, company_street, company_postal_code_and_city,
         get_iban_by_department doc, ustr ''HR00'', r, [],
         ustr ''Racun br. '' @ r, []]
    \<and> length (py_split newline payload) = 15"
proof -
  obtain r where r: "extract_reference_number (name doc) = Inr r"
    using extract_reference_number_returns by blast
  obtain a where a: "hub30_amount doc = Inr a"
    using hub30_amount_finite [OF assms(3)] by blast
  let ?ls = "[ustr ''HRVHUB30'', ustr ''EUR'', a, [], [], [],
         company doc, company_street, company_postal_code_and_city,
         get_iban_by_department doc, ustr ''HR00'', r, [],
         ustr ''Racun br. '' @ r, []]"
  have rn: "newline \<notin> set r"
    using r assms(2) by (rule reference_no_newline)
  have an: "newline \<notin> set a"
    using a by (rule hub30_amount_no_newline)
  have p: "generate_hub30_payload doc = Inr (py_join [newline] ?ls)"
    by (simp add: generate_hub30_payload_def hub30_lines_Inr [OF r a] rbind_def)
  have free: "\<forall>f \<in> set ?ls. newline \<notin> set f"
    using rn an assms(1) constants_no_newline
    by simp
  have s: "py_split newline (py_join [newline] ?ls) = ?ls"
    by (rule py_split_py_join [OF _ free]) simp
  have "generate_hub30_payload doc = Inr (py_join [newline] ?ls)
    \<and> extract_reference_number (name doc) = Inr r
    \<and> hub30_amount doc = Inr a
    \<and> py_split newline (py_join [newline] ?ls) = ?ls
    \<and> length (py_split newline (py_join [newline] ?ls)) = 15"
    using p r a s by simp
  then show ?thesis
    by (intro exI)
qed

theorem hub30_payload_fields_witness:
  "newline \<notin> set (company doc_standard) \<and> newline \<notin> set (name doc_standard)
   \<and> is_finite (float_mul (grand_total doc_standard) hundred)
   \<and> (\<exists>payload. generate_hub30_payload doc_standard = Inr payload
         \<and> length (py_split newline payload) = 15
         \<and> py_split newline payload ! 2 = ustr ''000000000250000''
         \<and> py_split newline payload ! 11 = ustr ''005-2024-00123'')"
proof -
  have h1: "newline \<notin> set (company doc_standard)"
    by (simp add: doc_standard_def ustr_def newline_def)
  have h2: "newline \<notin> set (name doc_standard)"
    by (simp add: doc_standard_def ustr_def newline_def)
  have h3: "is_finite (float_mul (grand_total doc_standard) hundred)"
    by (simp add: doc_standard_def float_mul_whole)
  have r: "extract_reference_number (name doc_standard) = Inr (ustr ''005-2024-00123'')"
    by (simp add: doc_standard_def extract_reference_number_def ustr_def dash_def)
  note a = hub30_amount_examples(2)
  from hub30_payload_fields [OF h1 h2 h3] obtain payload r' a' where
    "generate_hub30_payload doc_standard = Inr payload"
    "extract_reference_number (name doc_standard) = Inr r'"
    "hub30_amount doc_standard = Inr a'"
    "py_split newline payload =
        [ustr ''HRVHUB30'', ustr ''EUR'', a', [], [], [],
         company doc_standard, company_street, company_postal_code_and_city,
         get_iban_by_department doc_standard, ustr ''HR00'', r', [],
         ustr ''Racun br. '' @ r', []]"
    by blast
  with r a have "generate_hub30_payload doc_standard = Inr payload
         \<and> length (py_split newline payload) = 15
         \<and> py_split newline payload ! 2 = ustr ''000000000250000''
         \<and> py_split newline payload ! 11 = ustr ''005-2024-00123''"
    by simp
  with h1 h2 h3 show ?thesis by blast
qed

text \<open>
  The claim as stated, for every document, fails: a company name of two lines gives 16
  fields, and the payee street is no longer the eighth; and for the amount 1e307 the
  product with 100 is the infinity and no payload is returned.
\<close>

theorem hub30_payload_fields_counterexample:
  "\<not> isl (generate_hub30_payload (doc_standard\<lparr>company := ustr ''A'' @ [newline] @ ustr ''B''\<rparr>))
   \<and> length (py_split newline
        (projr (generate_hub30_payload (doc_standard\<lparr>company := ustr ''A'' @ [newline] @ ustr ''B''\<rparr>))))
       = 16
   \<and> py_split newline
        (projr (generate_hub30_payload (doc_standard\<lparr>company := ustr ''A'' @ [newline] @ ustr ''B''\<rparr>))) ! 7
       = ustr ''B''
   \<and> isl (generate_hub30_payload (doc_standard\<lparr>grand_total := float_1e307\<rparr>))"
proof -
  have r: "extract_reference_number (name (doc_standard\<lparr>company := ustr ''A'' @ [newline] @ ustr ''B''\<rparr>))
      = Inr (ustr ''005-2024-00123'')"
    by (simp add: doc_standard_def extract_reference_number_def ustr_def dash_def)
  have a: "hub30_amount (doc_standard\<lparr>company := ustr ''A'' @ [newline] @ ustr ''B''\<rparr>)
      = Inr (ustr ''000000000250000'')"
    using hub30_amount_examples(2) by (simp add: hub30_amount_def)
  have nl: "\<not> isl (generate_hub30_payload (doc_standard\<lparr>company := ustr ''A'' @ [newline] @ ustr ''B''\<rparr>))
   \<and> length (py_split newline
        (projr (generate_hub30_payload (doc_standard\<lparr>company := ustr ''A'' @ [newline] @ ustr ''B''\<rparr>))))
       = 16
   \<and> py_split newline
        (projr (generate_hub30_payload (doc_standard\<lparr>company := ustr ''A'' @ [newline] @ ustr ''B''\<rparr>))) ! 7
       = ustr ''B''"
    unfolding generate_hub30_payload_def hub30_lines_Inr [OF r a] rbind_def
    by (simp add: ustr_def newline_def company_street_def company_postal_code_and_city_def
        get_iban_by_department_def)
  have "isl (generate_hub30_payload (doc_standard\<lparr>grand_total := float_1e307\<rparr>))"
    by (simp add: hub30_payload_overflow)
  with nl show ?thesis by simp
qed

text \<open>
  C3 (amended). For every document whose BIC (when present), company name and identifier
  hold no newline character, \<open>generate_bcd_payload\<close> returns a string that splits on
  newline into exactly 12 fields, in this order: \<open>BCD\<close>, \<open>002\<close>, \<open>1\<close>, \<open>SCT\<close>, the
  payee BIC, the payee name, the payee IBAN, the amount, a blank purpose code, the
  structured reference, a blank field and the unstructured description.
\<close>

theorem bcd_payload_fields:
  assumes "newline \<notin> set (company doc)" and "newline \<notin> set (name doc)"
    and "\<And>b. bic doc = Some b \<Longrightarrow> newline \<notin> set b"
  shows "\<exists>payload r.
      generate_bcd_payload doc = Inr payload
    \<and> extract_reference_number (name doc) = Inr r
    \<and> py_split newline payload =
        [ustr ''BCD'', ustr ''002'', ustr ''1'', ustr ''SCT'',
         (case bic doc of Some b \<Rightarrow> b | None \<Rightarrow> ustr ''ZABAHR2XXXX''),
         company doc, get_iban_by_department doc, bcd_amount doc, [], r, [],
         get_document_type_label doc @ ustr '' '' @ r]
    \<and> length (py_split newline payload) = 12"
proof -
  obtain r where r: "extract_reference_number (name doc) = Inr r"
    using extract_reference_number_returns by blast
  let ?ls = "[ustr ''BCD'', ustr ''002'', ustr ''1'', ustr ''SCT'',
         (case bic doc of Some b \<Rightarrow> b | None \<Rightarrow> ustr ''ZABAHR2XXXX''),
         company doc, get_iban_by_department doc, bcd_amount doc, [], r, [],
         get_document_type_label doc @ ustr '' '' @ r]"
  note p = bcd_payload_split(1) [OF assms r]
  note s = bcd_payload_split(2) [OF assms r]
  have "generate_bcd_payload doc = Inr (py_join [newline] ?ls)
    \<and> extract_reference_number (name doc) = Inr r
    \<and> py_split newline (py_join [newline] ?ls) = ?ls
    \<and> length (py_split newline (py_join [newline] ?ls)) = 12"
    using p r s by simp
  then show ?thesis
    by (intro exI)
qed

lemma bcd_amount_standard: "bcd_amount doc_standard = ustr ''EUR2500.00''"
  by (simp add: doc_standard_def bcd_amount_def fixed2_def pow2_def py_round_def
      digits_of_small digits_of_large digit_char_def ustr_def py_replace_def
      comma_def dot_def)

theorem bcd_payload_fields_witness:
  "newline \<notin> set (company doc_standard) \<and> newline \<notin> set (name doc_standard)
   \<and> bic doc_standard = Some (ustr ''ZABAHR2XXXX'')
   \<and> newline \<notin> set (ustr ''ZABAHR2XXXX'')
   \<and> (\<exists>payload. generate_bcd_payload doc_standard = Inr payload
         \<and> length (py_split newline payload) = 12
         \<and> py_split newline payload ! 9 = ustr ''005-2024-00123'')"
proof -
  have h1: "newline \<notin> set (company doc_standard)"
    by (simp add: doc_standard_def ustr_def newline_def)
  have h2: "newline \<notin> set (name doc_standard)"
    by (simp add: doc_standard_def ustr_def newline_def)
  have h3: "newline \<notin> set b" if "bic doc_standard = Some b" for b
    using that by (auto simp: doc_standard_def ustr_def newline_def)
  have r: "extract_reference_number (name doc_standard) = Inr (ustr ''005-2024-00123'')"
    by (simp add: doc_standard_def extract_reference_number_def ustr_def dash_def)
  from bcd_payload_fields [OF h1 h2 h3] obtain payload r' where
    "generate_bcd_payload doc_standard = Inr payload"
    "extract_reference_number (name doc_standard) = Inr r'"
    "py_split newline payload =
        [ustr ''BCD'', ustr ''002'', ustr ''1'', ustr ''SCT'',
         (case bic doc_standard of Some b \<Rightarrow> b | None \<Rightarrow> ustr ''ZABAHR2XXXX''),
         company doc_standard, get_iban_by_department doc_standard,
         bcd_amount doc_standard, [], r', [],
         get_document_type_label doc_standard @ ustr '' '' @ r']"
    by blast
  with r have "generate_bcd_payload doc_standard = Inr payload
         \<and> length (py_split newline payload) = 12
         \<and> py_split newline payload ! 9 = ustr ''005-2024-00123''"
    by simp
  moreover have "bic doc_standard = Some (ustr ''ZABAHR2XXXX'')"
    by (simp add: doc_standard_def)
  moreover have "newline \<notin> set (ustr ''ZABAHR2XXXX'')"
    by (simp add: ustr_def newline_def)
  ultimately show ?thesis
    using h1 h2 by blast
qed

text \<open>
  The claim as stated, for every document, fails: a company name of two lines gives 13
  fields, and the payee IBAN is no longer the seventh.
\<close>

theorem bcd_payload_fields_counterexample:
  "\<not> isl (generate_bcd_payload (doc_standard\<lparr>company := ustr ''A'' @ [newline] @ ustr ''B''\<rparr>))
   \<and> length (py_split newline
        (projr (generate_bcd_payload (doc_standard\<lparr>company := ustr ''A'' @ [newline] @ ustr ''B''\<rparr>))))
       = 13
   \<and> py_split newline
        (projr (generate_bcd_payload (doc_standard\<lparr>company := ustr ''A'' @ [newline] @ ustr ''B''\<rparr>))) ! 6
       = ustr ''B''"
proof -
  have r: "extract_reference_number (name (doc_standard\<lparr>company := ustr ''A'' @ [newline] @ ustr ''B''\<rparr>))
      = Inr (ustr ''005-2024-00123'')"
    by (simp add: doc_standard_def extract_reference_number_def ustr_def dash_def)
  have a: "bcd_amount (doc_standard\<lparr>company := ustr ''A'' @ [newline] @ ustr ''B''\<rparr>)
      = ustr ''EUR2500.00''"
    using bcd_amount_standard by (simp add: bcd_amount_def)
  have l: "get_document_type_label (doc_standard\<lparr>company := ustr ''A'' @ [newline] @ ustr ''B''\<rparr>)
      = label_racun"
    by (simp add: doc_standard_def get_document_type_label_def labels_def ustr_def)
  show ?thesis
    unfolding generate_bcd_payload_def bcd_lines_Inr [OF r] rbind_def a l
    by (simp add: doc_standard_def ustr_def newline_def label_racun_def
        get_iban_by_department_def)
qed

section \<open>The BCD amount\<close>

lemma hundreds_tens_units:
  "10 * (10 * (n div 100) + n mod 100 div 10) + n mod 10 = (n::nat)"
proof -
  have a: "n div 100 = n div 10 div 10"
    by (simp add: div_mult2_eq)
  have "n mod 100 = 10 * (n div 10 mod 10) + n mod 10"
    using mod_mult2_eq [of n 10 10] by simp
  then have b: "n mod 100 div 10 = n div 10 mod 10"
    by simp
  have "10 * (n div 10 div 10) + n div 10 mod 10 = n div 10"
    by simp
  then show ?thesis
    unfolding a b by simp
qed

lemma decimal_value_two_more:
  "decimal_value (digits_of (n div 100) @ [digit_char (n mod 100 div 10), digit_char (n mod 10)]) = n"
proof -
  have "decimal_value ((digits_of (n div 100) @ [digit_char (n mod 100 div 10)]) @ [digit_char (n mod 10)])
      = 10 * (10 * (n div 100) + n mod 100 div 10) + n mod 10"
    unfolding decimal_value_snoc decimal_value_digits_of
    by (simp add: digit_char_def)
  then show ?thesis
    by (simp only: hundreds_tens_units append_assoc append_Cons append_Nil)
qed

text \<open>
  The amount field of a finite float: \<open>EUR\<close>, the sign when the sign bit is set, the
  digits of the magnitude rounded to hundredths.
\<close>

lemma bcd_amount_Finite:
  assumes "grand_total doc = Finite s m e"
  shows "bcd_amount doc =
           ustr ''EUR'' @ (if s then [dash] else [])
             @ digits_of (nat (py_round (of_nat m * pow2 e * 100)) div 100)
             @ [dot, digit_char (nat (py_round (of_nat m * pow2 e * 100)) mod 100 div 10),
                digit_char (nat (py_round (of_nat m * pow2 e * 100)) mod 10)]"
    and "comma \<notin> set (bcd_amount doc)"
proof -
  let ?n = "nat (py_round (of_nat m * pow2 e * 100))"
  let ?t = "ustr ''EUR'' @ (if s then [dash] else []) @ digits_of (?n div 100)
             @ [dot, digit_char (?n mod 100 div 10), digit_char (?n mod 10)]"
  have "c \<noteq> comma" if "c \<in> set (digits_of (?n div 100))" for c
    using digits_of_digits [OF that] by (simp add: is_digit_def comma_def)
  then have no: "comma \<notin> set ?t"
    by (auto simp: ustr_def comma_def dot_def dash_def digit_char_def)
  have "bcd_amount doc = py_replace comma dot ?t"
    by (simp add: bcd_amount_def assms fixed2_def Let_def)
  then show eq: "bcd_amount doc = ?t"
    using no by (simp add: py_replace_absent)
  show "comma \<notin> set (bcd_amount doc)"
    using no eq by simp
qed

lemma bcd_amount_special:
  "grand_total doc = Infinity False \<Longrightarrow> bcd_amount doc = ustr ''EURinf''"
  "grand_total doc = Infinity True \<Longrightarrow> bcd_amount doc = ustr ''EUR-inf''"
  "grand_total doc = NaN \<Longrightarrow> bcd_amount doc = ustr ''EURnan''"
  by (simp_all add: bcd_amount_def py_replace_def ustr_def comma_def dash_def)

lemma bcd_amount_zero:
  assumes "grand_total doc = Finite s 0 e"
  shows "bcd_amount doc = ustr ''EUR'' @ (if s then [dash] else []) @ ustr ''0.00''"
  by (simp add: bcd_amount_Finite(1) [OF assms] py_round_def digits_of_small digit_char_def
      ustr_def dot_def)

text \<open>
  C9 (amended). For every document whose amount is a finite float with \<open>amount >= 0\<close>,
  the amount field of the BCD payload (the eighth of its twelve fields) is \<open>EUR\<close>, then
  a minus sign exactly when the amount is negative zero, then one or more digits, a point
  and exactly two digits; it holds no comma, and the digits read as hundredths are the
  magnitude of the amount times 100 rounded to the nearest integer. The amount 2500.0
  gives \<open>EUR2500.00\<close> and negative zero gives \<open>EUR-0.00\<close>. For plus infinity, which
  also satisfies \<open>amount >= 0\<close>, the field is \<open>EURinf\<close>.
\<close>

theorem bcd_amount_two_decimals:
  assumes "float_ge_zero (grand_total doc)"
  shows "(\<exists>ls. bcd_lines doc = Inr ls
            \<and> generate_bcd_payload doc = Inr (py_join [newline] ls)
            \<and> length ls = 12
            \<and> ls ! 7 = bcd_amount doc)
    \<and> (newline \<notin> set (company doc) \<and> newline \<notin> set (name doc)
          \<and> (\<forall>b. bic doc = Some b \<longrightarrow> newline \<notin> set b) \<longrightarrow>
        (\<exists>payload. generate_bcd_payload doc = Inr payload
            \<and> py_split newline payload ! 7 = bcd_amount doc))
    \<and> (\<forall>s m e. grand_total doc = Finite s m e \<longrightarrow>
          (\<exists>ip d1 d2.
              bcd_amount doc = ustr ''EUR'' @ (if s then [dash] else []) @ ip @ [dot, d1, d2]
            \<and> ip \<noteq> []
            \<and> (\<forall>c \<in> set ip. is_digit c)
            \<and> is_digit d1 \<and> is_digit d2
            \<and> comma \<notin> set (bcd_amount doc)
            \<and> int (decimal_value (ip @ [d1, d2]))
                = py_round (float_magnitude (grand_total doc) * 100))
          \<and> (s \<longrightarrow> m = 0 \<and> bcd_amount doc = ustr ''EUR-0.00''))
    \<and> (\<forall>s. grand_total doc = Infinity s \<longrightarrow> bcd_amount doc = ustr ''EURinf'')
    \<and> bcd_amount (doc\<lparr>grand_total := Finite False 2500 0\<rparr>) = ustr ''EUR2500.00''"
proof -
  obtain r where r: "extract_reference_number (name doc) = Inr r"
    using extract_reference_number_returns by blast
  let ?ls = "[ustr ''BCD'', ustr ''002'', ustr ''1'', ustr ''SCT'',
                (case bic doc of Some b \<Rightarrow> b | None \<Rightarrow> ustr ''ZABAHR2XXXX''),
                company doc, get_iban_by_department doc, bcd_amount doc, [], r, [],
                get_document_type_label doc @ ustr '' '' @ r]"
  have f: "?ls ! 7 = bcd_amount doc"
    by simp
  have lines: "\<exists>ls. bcd_lines doc = Inr ls
            \<and> generate_bcd_payload doc = Inr (py_join [newline] ls)
            \<and> length ls = 12
            \<and> ls ! 7 = bcd_amount doc"
  proof -
    have "bcd_lines doc = Inr ?ls
            \<and> generate_bcd_payload doc = Inr (py_join [newline] ?ls)
            \<and> length ?ls = 12
            \<and> ?ls ! 7 = bcd_amount doc"
      by (simp add: bcd_lines_Inr [OF r] generate_bcd_payload_def rbind_def)
    then show ?thesis
      by (intro exI)
  qed
  have split: "newline \<notin> set (company doc) \<and> newline \<notin> set (name doc)
          \<and> (\<forall>b. bic doc = Some b \<longrightarrow> newline \<notin> set b) \<longrightarrow>
        (\<exists>payload. generate_bcd_payload doc = Inr payload
            \<and> py_split newline payload ! 7 = bcd_amount doc)"
  proof
    assume h: "newline \<notin> set (company doc) \<and> newline \<notin> set (name doc)
          \<and> (\<forall>b. bic doc = Some b \<longrightarrow> newline \<notin> set b)"
    then have h1: "newline \<notin> set (company doc)" and h2: "newline \<notin> set (name doc)"
      and h3: "\<And>b. bic doc = Some b \<Longrightarrow> newline \<notin> set b"
      by blast+
    have "generate_bcd_payload doc = Inr (py_join [newline] ?ls)
        \<and> py_split newline (py_join [newline] ?ls) ! 7 = bcd_amount doc"
      using bcd_payload_split(1) [OF h1 h2 h3 r]
      by (simp only: bcd_payload_split(2) [OF h1 h2 h3 r] f simp_thms)
    then show "\<exists>payload. generate_bcd_payload doc = Inr payload
            \<and> py_split newline payload ! 7 = bcd_amount doc"
      by (intro exI)
  qed
  have finite: "(\<exists>ip d1 d2.
              bcd_amount doc = ustr ''EUR'' @ (if s then [dash] else []) @ ip @ [dot, d1, d2]
            \<and> ip \<noteq> []
            \<and> (\<forall>c \<in> set ip. is_digit c)
            \<and> is_digit d1 \<and> is_digit d2
            \<and> comma \<notin> set (bcd_amount doc)
            \<and> int (decimal_value (ip @ [d1, d2]))
                = py_round (float_magnitude (grand_total doc) * 100))
          \<and> (s \<longrightarrow> m = 0 \<and> bcd_amount doc = ustr ''EUR-0.00'')"
    if g: "grand_total doc = Finite s m e" for s m e
  proof -
    let ?n = "nat (py_round (of_nat m * pow2 e * 100))"
    let ?ip = "digits_of (?n div 100)"
    let ?d1 = "digit_char (?n mod 100 div 10)"
    let ?d2 = "digit_char (?n mod 10)"
    have shape: "bcd_amount doc = ustr ''EUR'' @ (if s then [dash] else []) @ ?ip @ [dot, ?d1, ?d2]"
      by (rule bcd_amount_Finite(1) [OF g])
    have ne: "?ip \<noteq> []"
      by (rule digits_of_nonempty)
    have dg: "\<forall>c \<in> set ?ip. is_digit c"
      using digits_of_digits by blast
    have d1: "is_digit ?d1"
      by (rule is_digit_digit_char) (simp add: less_mult_imp_div_less)
    have d2: "is_digit ?d2"
      by (rule is_digit_digit_char) simp
    have nc: "comma \<notin> set (bcd_amount doc)"
      by (rule bcd_amount_Finite(2) [OF g])
    have "0 \<le> py_round (of_nat m * pow2 e * 100)"
      by (intro py_round_nonneg) (simp add: pow2_nonneg)
    then have val: "int (decimal_value (?ip @ [?d1, ?d2]))
        = py_round (float_magnitude (grand_total doc) * 100)"
      by (simp add: decimal_value_two_more g)
    have main: "bcd_amount doc = ustr ''EUR'' @ (if s then [dash] else []) @ ?ip @ [dot, ?d1, ?d2]
            \<and> ?ip \<noteq> []
            \<and> (\<forall>c \<in> set ?ip. is_digit c)
            \<and> is_digit ?d1 \<and> is_digit ?d2
            \<and> comma \<notin> set (bcd_amount doc)
            \<and> int (decimal_value (?ip @ [?d1, ?d2]))
                = py_round (float_magnitude (grand_total doc) * 100)"
      using shape ne dg d1 d2 nc val by (intro conjI)
    have ex: "\<exists>ip d1 d2.
              bcd_amount doc = ustr ''EUR'' @ (if s then [dash] else []) @ ip @ [dot, d1, d2]
            \<and> ip \<noteq> []
            \<and> (\<forall>c \<in> set ip. is_digit c)
            \<and> is_digit d1 \<and> is_digit d2
            \<and> comma \<notin> set (bcd_amount doc)
            \<and> int (decimal_value (ip @ [d1, d2]))
                = py_round (float_magnitude (grand_total doc) * 100)"
      by (intro exI) (rule main)
    have neg: "s \<longrightarrow> m = 0 \<and> bcd_amount doc = ustr ''EUR-0.00''"
    proof
      assume s: s
      with assms g have m: "m = 0"
        by simp
      with g s have "bcd_amount doc = ustr ''EUR'' @ [dash] @ ustr ''0.00''"
        using bcd_amount_zero [of doc s e] by simp
      then show "m = 0 \<and> bcd_amount doc = ustr ''EUR-0.00''"
        using m by (simp add: ustr_def dash_def)
    qed
    from ex neg show ?thesis by (rule conjI)
  qed
  have inf: "\<forall>s. grand_total doc = Infinity s \<longrightarrow> bcd_amount doc = ustr ''EURinf''"
    using assms bcd_amount_special(1) [of doc] by auto
  have ex2500: "bcd_amount (doc\<lparr>grand_total := Finite False 2500 0\<rparr>) = ustr ''EUR2500.00''"
    by (simp add: bcd_amount_def fixed2_def pow2_def py_round_def
        digits_of_small digits_of_large digit_char_def ustr_def py_replace_def
        comma_def dot_def)
  from lines split finite inf ex2500 show ?thesis
    by (intro conjI allI impI) blast+
qed

theorem bcd_amount_two_decimals_witness:
  "float_ge_zero (grand_total doc_standard)
   \<and> newline \<notin> set (company doc_standard) \<and> newline \<notin> set (name doc_standard)
   \<and> bic doc_standard = Some (ustr ''ZABAHR2XXXX'')
   \<and> grand_total doc_standard = Finite False 2500 0
   \<and> (\<exists>payload. generate_bcd_payload doc_standard = Inr payload
         \<and> py_split newline payload ! 7 = ustr ''EUR2500.00'')
   \<and> float_ge_zero (grand_total (doc_standard\<lparr>grand_total := negative_zero\<rparr>))
   \<and> bcd_amount (doc_standard\<lparr>grand_total := negative_zero\<rparr>) = ustr ''EUR-0.00''"
proof -
  have h: "float_ge_zero (grand_total doc_standard)"
    by (simp add: doc_standard_def)
  have h1: "newline \<notin> set (company doc_standard)"
    by (simp add: doc_standard_def ustr_def newline_def)
  have h2: "newline \<notin> set (name doc_standard)"
    by (simp add: doc_standard_def ustr_def newline_def)
  have b: "bic doc_standard = Some (ustr ''ZABAHR2XXXX'')"
    by (simp add: doc_standard_def)
  have h3: "\<forall>b. bic doc_standard = Some b \<longrightarrow> newline \<notin> set b"
    by (simp add: b ustr_def newline_def)
  have g: "grand_total doc_standard = Finite False 2500 0"
    by (simp add: doc_standard_def)
  have p: "\<exists>payload. generate_bcd_payload doc_standard = Inr payload
         \<and> py_split newline payload ! 7 = ustr ''EUR2500.00''"
    using bcd_amount_two_decimals [OF h] h1 h2 h3 bcd_amount_standard by simp
  have z: "float_ge_zero (grand_total (doc_standard\<lparr>grand_total := negative_zero\<rparr>))"
    by (simp add: negative_zero_def)
  have zg: "grand_total (doc_standard\<lparr>grand_total := negative_zero\<rparr>) = Finite True 0 0"
    by (simp add: negative_zero_def)
  have n: "bcd_amount (doc_standard\<lparr>grand_total := negative_zero\<rparr>) = ustr ''EUR-0.00''"
    using bcd_amount_two_decimals [OF z] zg by blast
  from h h1 h2 b g p z n show ?thesis by (intro conjI)
qed

text \<open>
  The claim as stated fails: plus infinity satisfies \<open>amount >= 0\<close> and its field
  \<open>EURinf\<close> has no point and no digit; negative zero satisfies it too and its field
  carries a minus sign between \<open>EUR\<close> and the digits.
\<close>

theorem bcd_amount_two_decimals_counterexample:
  "float_ge_zero (Infinity False)
   \<and> projr (bcd_lines (doc_standard\<lparr>grand_total := Infinity False\<rparr>)) ! 7 = ustr ''EURinf''
   \<and> dot \<notin> set (projr (bcd_lines (doc_standard\<lparr>grand_total := Infinity False\<rparr>)) ! 7)
   \<and> py_split newline (projr (generate_bcd_payload (doc_standard\<lparr>grand_total := Infinity False\<rparr>))) ! 7
       = ustr ''EURinf''
   \<and> float_ge_zero negative_zero
   \<and> projr (bcd_lines (doc_standard\<lparr>grand_total := negative_zero\<rparr>)) ! 7 = ustr ''EUR-0.00''"
proof -
  have r: "extract_reference_number (name (doc_standard\<lparr>grand_total := g\<rparr>))
      = Inr (ustr ''005-2024-00123'')" for g
    by (simp add: doc_standard_def extract_reference_number_def ustr_def dash_def)
  have i: "bcd_amount (doc_standard\<lparr>grand_total := Infinity False\<rparr>) = ustr ''EURinf''"
    by (simp add: bcd_amount_special)
  have z: "bcd_amount (doc_standard\<lparr>grand_total := negative_zero\<rparr>) = ustr ''EUR-0.00''"
    using bcd_amount_zero [of "doc_standard\<lparr>grand_total := negative_zero\<rparr>" True 0]
    by (simp add: negative_zero_def ustr_def dash_def)
  have l: "get_document_type_label (doc_standard\<lparr>grand_total := Infinity False\<rparr>) = label_racun"
    by (simp add: doc_standard_def get_document_type_label_def labels_def ustr_def)
  have c1: "float_ge_zero (Infinity False)" and c5: "float_ge_zero negative_zero"
    by (simp_all add: negative_zero_def)
  have c2: "projr (bcd_lines (doc_standard\<lparr>grand_total := Infinity False\<rparr>)) ! 7 = ustr ''EURinf''"
    by (simp add: bcd_lines_Inr [OF r] i)
  have c3: "dot \<notin> set (projr (bcd_lines (doc_standard\<lparr>grand_total := Infinity False\<rparr>)) ! 7)"
    unfolding c2 by (simp add: ustr_def dot_def)
  have c4: "py_split newline (projr (generate_bcd_payload (doc_standard\<lparr>grand_total := Infinity False\<rparr>))) ! 7
       = ustr ''EURinf''"
    unfolding generate_bcd_payload_def bcd_lines_Inr [OF r] rbind_def i l
    by (simp add: doc_standard_def ustr_def newline_def label_racun_def
        get_iban_by_department_def)
  have c6: "projr (bcd_lines (doc_standard\<lparr>grand_total := negative_zero\<rparr>)) ! 7 = ustr ''EUR-0.00''"
    by (simp add: bcd_lines_Inr [OF r] z)
  from c1 c2 c3 c4 c5 c6 show ?thesis by (intro conjI)
qed

section \<open>Saving a data URI\<close>

text \<open>
  C6 (amended). For every reference string that does not start with
  \<open>data:image/png;base64,\<close>, \<open>save_data_uri_to_file\<close> returns normally and leaves the
  world as it was: it writes no file, prints nothing and raises no error.
\<close>

theorem save_data_uri_other_reference:
  assumes "\<not> startswith data_uri data_uri_prefix"
  shows "save_data_uri_to_file data_uri filename w = Inr w"
  using assms by (simp add: save_data_uri_to_file_def)

theorem save_data_uri_other_reference_witness:
  "\<not> startswith (ustr ''image.png'') data_uri_prefix
   \<and> save_data_uri_to_file (ustr ''image.png'') (ustr ''out.png'') empty_world = Inr empty_world"
proof -
  have h: "\<not> startswith (ustr ''image.png'') data_uri_prefix"
    by (simp add: startswith_def data_uri_prefix_def ustr_def)
  from save_data_uri_other_reference [OF h] h show ?thesis
    by simp
qed

text \<open>
  The claim as stated fails: the reference \<open>hello\<close> does not start with the prefix, and
  the call returns without an error and without a file.
\<close>

theorem save_data_uri_rejects_counterexample:
  "\<not> startswith (ustr ''hello'') data_uri_prefix
   \<and> \<not> isl (save_data_uri_to_file (ustr ''hello'') (ustr ''out.png'') empty_world)
   \<and> files (projr (save_data_uri_to_file (ustr ''hello'') (ustr ''out.png'') empty_world))
        (ustr ''out.png'') = None
   \<and> stdout (projr (save_data_uri_to_file (ustr ''hello'') (ustr ''out.png'') empty_world)) = []"
  by (simp add: save_data_uri_to_file_def startswith_def data_uri_prefix_def ustr_def
      empty_world_def)

section \<open>The renderers\<close>





lemma encoder_failure_reaches_handler:
  "pdf417_encode lib data 9 2 = Inl e \<Longrightarrow> pdf417_try lib data scale ratio = Inl e"
  "qr_make_image lib data box_size border = Inl e \<Longrightarrow> qr_try lib data box_size border = Inl e"
  "get_barcode_class lib barcode_type = Inr cls \<Longrightarrow> barcode_new lib cls data = Inl e
     \<Longrightarrow> barcode_try lib data barcode_type mw mh = Inl e"
  by (simp_all add: pdf417_try_def qr_try_def barcode_try_def rbind_def)





section \<open>Base64 round trip\<close>

lemma b64_value_char: "v < 64 \<Longrightarrow> b64_value (b64_char v) = Some v"
  unfolding b64_value_def b64_char_def by (simp split: if_splits) arith

lemma b64_char_not_pad: "b64_char v \<noteq> b64_pad"
  unfolding b64_char_def b64_pad_def by (simp split: if_splits) arith

lemma b64_char_not_comma: "b64_char v \<noteq> comma"
  unfolding b64_char_def comma_def by (simp split: if_splits) arith

lemma b64_char_ascii: "b64_char v < 128"
  unfolding b64_char_def by (simp split: if_splits) arith

lemma sextet_bounds:
  fixes x y z :: nat
  assumes "x < 256" and "y < 256" and "z < 256"
  shows "x div 4 < 64" and "x mod 4 * 16 < 64" and "x mod 4 * 16 + y div 16 < 64"
    and "y mod 16 * 4 < 64" and "y mod 16 * 4 + z div 64 < 64" and "z mod 64 < 64"
proof -
  have a: "x mod 4 \<le> 3" and b: "y mod 16 \<le> 15"
    by simp_all
  have c: "y div 16 < 16" and d: "z div 64 < 4"
    using assms by (simp_all add: less_mult_imp_div_less)
  show "x div 4 < 64"
    using assms by (simp add: less_mult_imp_div_less)
  show "x mod 4 * 16 < 64"
    using a by linarith
  show "x mod 4 * 16 + y div 16 < 64"
    using a c by linarith
  show "y mod 16 * 4 < 64"
    using b by linarith
  show "y mod 16 * 4 + z div 64 < 64"
    using b d by linarith
  show "z mod 64 < 64"
    by simp
qed

lemma first_byte:
  fixes x y :: nat
  assumes "y < 256"
  shows "x div 4 * 4 + (x mod 4 * 16 + y div 16) div 16 = x"
    and "(x mod 4 * 16 + y div 16) mod 16 = y div 16"
proof -
  have c: "y div 16 < 16"
    using assms by (simp add: less_mult_imp_div_less)
  then have "(x mod 4 * 16 + y div 16) div 16 = x mod 4"
    by simp
  then show "x div 4 * 4 + (x mod 4 * 16 + y div 16) div 16 = x"
    by simp
  show "(x mod 4 * 16 + y div 16) mod 16 = y div 16"
    using c by simp
qed

lemma first_byte_alone:
  fixes x :: nat
  shows "x div 4 * 4 + x mod 4 * 16 div 16 = x"
  by simp

lemma second_byte:
  fixes y z :: nat
  assumes "z < 256"
  shows "y div 16 * 16 + (y mod 16 * 4 + z div 64) div 4 = y"
    and "(y mod 16 * 4 + z div 64) mod 4 = z div 64"
proof -
  have d: "z div 64 < 4"
    using assms by (simp add: less_mult_imp_div_less)
  then have "(y mod 16 * 4 + z div 64) div 4 = y mod 16"
    by simp
  then show "y div 16 * 16 + (y mod 16 * 4 + z div 64) div 4 = y"
    by simp
  show "(y mod 16 * 4 + z div 64) mod 4 = z div 64"
    using d by simp
qed

lemma second_byte_alone:
  fixes y :: nat
  shows "y div 16 * 16 + y mod 16 * 4 div 4 = y"
  by simp

lemma third_byte:
  fixes z :: nat
  shows "z div 64 * 64 + z mod 64 = z"
  by simp

lemma unat_byte: "unat (a :: byte) < 256"
  using unsigned_less [of a, where ?'a = nat] by simp

lemma byte_of_unat: "of_nat (unat a) = (a :: byte)"
  by simp

lemma a2b_loop_char:
  assumes "v < 64"
  shows "a2b_loop 0 l p out (b64_char v # rest) = a2b_loop 1 v 0 out rest"
    and "a2b_loop 1 l p out (b64_char v # rest)
          = a2b_loop 2 (v mod 16) 0 (out @ [of_nat (l * 4 + v div 16)]) rest"
    and "a2b_loop 2 l p out (b64_char v # rest)
          = a2b_loop 3 (v mod 4) 0 (out @ [of_nat (l * 16 + v div 4)]) rest"
    and "a2b_loop 3 l p out (b64_char v # rest)
          = a2b_loop 0 0 0 (out @ [of_nat (l * 64 + v)]) rest"
  using assms by (simp_all add: b64_value_char b64_char_not_pad)

lemma a2b_loop_pad:
  "a2b_loop 2 l 0 out (b64_pad # b64_pad # rest) = Inr out"
  "a2b_loop 3 l 0 out (b64_pad # rest) = Inr out"
  by simp_all

lemma a2b_loop_b64encode: "a2b_loop 0 l p out (b64encode bs) = Inr (out @ bs)"
proof (induction bs arbitrary: l p out rule: b64encode.induct)
  case 1
  show ?case by simp
next
  case (2 a)
  note b = sextet_bounds [OF unat_byte [of a] unat_byte [of a] unat_byte [of a]]
  show ?case
    unfolding b64encode.simps
    by (simp only: a2b_loop_char [OF b(1)] a2b_loop_char [OF b(2)] a2b_loop_pad
        first_byte_alone byte_of_unat)
next
  case (3 a b)
  note s = sextet_bounds [OF unat_byte [of a] unat_byte [of b] unat_byte [of b]]
  show ?case
    unfolding b64encode.simps
    by (simp only: a2b_loop_char [OF s(1)] a2b_loop_char [OF s(3)] a2b_loop_char [OF s(4)]
        a2b_loop_pad first_byte [OF unat_byte [of b]] second_byte_alone
        byte_of_unat append_assoc append_Cons append_Nil)
next
  case (4 a b c rest)
  note s = sextet_bounds [OF unat_byte [of a] unat_byte [of b] unat_byte [of c]]
  have "a2b_loop 0 l p out (b64encode (a # b # c # rest))
      = a2b_loop 0 0 0 (out @ [a, b, c]) (b64encode rest)"
    unfolding b64encode.simps
    by (simp only: a2b_loop_char [OF s(1)] a2b_loop_char [OF s(3)] a2b_loop_char [OF s(5)]
        a2b_loop_char [OF s(6)] first_byte [OF unat_byte [of b]]
        second_byte [OF unat_byte [of c]] third_byte
        byte_of_unat append_assoc append_Cons append_Nil)
  also have "\<dots> = Inr ((out @ [a, b, c]) @ rest)"
    by (rule "4.IH")
  finally show ?case by simp
qed

lemma b64encode_chars:
  "ch \<in> set (b64encode bs) \<Longrightarrow> ch \<noteq> comma \<and> ch < 128"
proof (induction bs rule: b64encode.induct)
  case 1
  then show ?case by simp
next
  case (2 a)
  then show ?case
    using b64_char_not_comma b64_char_ascii
    by (auto simp: b64_pad_def comma_def)
next
  case (3 a b)
  then show ?case
    using b64_char_not_comma b64_char_ascii
    by (auto simp: b64_pad_def comma_def)
next
  case (4 a b c rest)
  then show ?case
    using b64_char_not_comma b64_char_ascii
    by (auto simp: b64_pad_def comma_def)
qed

lemma b64decode_b64encode: "b64decode (b64encode bs) = Inr bs"
proof -
  have "\<not> list_ex (\<lambda>c. 128 \<le> c) (b64encode bs)"
    using b64encode_chars [of _ bs] by (fastforce simp: list_ex_iff)
  then show ?thesis
    by (simp add: b64decode_def a2b_loop_b64encode)
qed

section \<open>The data URI round trip\<close>

lemma startswith_append: "startswith (pre @ s) pre"
  by (simp add: startswith_def)

lemma b64encode_no_comma: "comma \<notin> set (b64encode bs)"
  using b64encode_chars [of comma bs] by blast

lemma py_split_data_uri:
  "py_split comma (buffer_to_data_uri buf) = [ustr ''data:image/png;base64'', b64encode buf]"
proof -
  have p: "data_uri_prefix = ustr ''data:image/png;base64'' @ [comma]"
    by (simp add: data_uri_prefix_def ustr_def comma_def)
  have n: "comma \<notin> set (ustr ''data:image/png;base64'')"
    by (simp add: ustr_def comma_def)
  have "py_split comma (ustr ''data:image/png;base64'' @ comma # b64encode buf)
      = ustr ''data:image/png;base64'' # py_split comma (b64encode buf)"
    using n by (rule py_split_append)
  then show ?thesis
    by (simp add: buffer_to_data_uri_def p py_split_free [OF b64encode_no_comma])
qed

lemma decode_data_uri:
  "rbind (py_index (py_split comma (buffer_to_data_uri buf)) 1) b64decode = Inr buf"
  by (simp add: py_split_data_uri py_index_def rbind_def b64decode_b64encode)

text \<open>
  C7. Decoding the data URI made by \<open>buffer_to_data_uri\<close> the way
  \<open>save_data_uri_to_file\<close> does (the part after the comma, Base64-decoded) gives back
  exactly the original bytes; and when the file can be opened for writing, the call
  stores these bytes under the file name and prints one line.
\<close>

theorem data_uri_round_trip:
  assumes "can_open w filename"
  shows "rbind (py_index (py_split comma (buffer_to_data_uri buf)) 1) b64decode = Inr buf
    \<and> save_data_uri_to_file (buffer_to_data_uri buf) filename w =
        Inr (py_print (ustr ''Slika spremljena: '' @ filename)
               (w\<lparr>files := (files w)(filename \<mapsto> buf)\<rparr>))
    \<and> files (projr (save_data_uri_to_file (buffer_to_data_uri buf) filename w)) filename
        = Some buf"
proof -
  have s: "startswith (buffer_to_data_uri buf) data_uri_prefix"
    unfolding buffer_to_data_uri_def by (rule startswith_append)
  have d: "rbind (py_index (py_split comma (buffer_to_data_uri buf)) 1) b64decode = Inr buf"
    by (rule decode_data_uri)
  have i: "py_index (py_split comma (buffer_to_data_uri buf)) 1 = Inr (b64encode buf)"
    by (simp add: py_split_data_uri py_index_def)
  have e: "save_data_uri_to_file (buffer_to_data_uri buf) filename w =
        Inr (py_print (ustr ''Slika spremljena: '' @ filename)
               (w\<lparr>files := (files w)(filename \<mapsto> buf)\<rparr>))"
    using assms unfolding save_data_uri_to_file_def i
    by (simp add: s rbind_def b64decode_b64encode write_file_def)
  have f: "files (projr (save_data_uri_to_file (buffer_to_data_uri buf) filename w)) filename
        = Some buf"
    by (simp add: e py_print_def)
  from d e f show ?thesis by (intro conjI)
qed

theorem data_uri_round_trip_witness:
  "can_open empty_world (ustr ''out.png'')
   \<and> buffer_to_data_uri [137, 80, 78, 71] = ustr ''data:image/png;base64,iVBORw==''
   \<and> save_data_uri_to_file (ustr ''data:image/png;base64,iVBORw=='') (ustr ''out.png'') empty_world =
        Inr (py_print (ustr ''Slika spremljena: out.png'')
               (empty_world\<lparr>files := (files empty_world)(ustr ''out.png'' \<mapsto> [137, 80, 78, 71])\<rparr>))"
proof -
  have h: "can_open empty_world (ustr ''out.png'')"
    by (simp add: empty_world_def)
  have u: "buffer_to_data_uri [137, 80, 78, 71] = ustr ''data:image/png;base64,iVBORw==''"
    by (simp add: buffer_to_data_uri_def data_uri_prefix_def ustr_def b64_char_def b64_pad_def)
  from data_uri_round_trip [OF h, of "[137, 80, 78, 71]"] h u show ?thesis
    by (simp add: ustr_def)
qed

section \<open>First and last index with a property\<close>

lemma sorted_filter_upt: "sorted (filter P [0..<n])"
  by (rule sorted_wrt_filter) simp

lemma hd_filter_upt:
  assumes "filter P [0..<n] \<noteq> []"
  shows "hd (filter P [0..<n]) < n" and "P (hd (filter P [0..<n]))"
proof -
  have "hd (filter P [0..<n]) \<in> set (filter P [0..<n])"
    using assms by (rule hd_in_set)
  then show "hd (filter P [0..<n]) < n" and "P (hd (filter P [0..<n]))"
    by simp_all
qed

lemma last_filter_upt:
  assumes "filter P [0..<n] \<noteq> []"
  shows "last (filter P [0..<n]) < n" and "P (last (filter P [0..<n]))"
proof -
  have "last (filter P [0..<n]) \<in> set (filter P [0..<n])"
    using assms by (rule last_in_set)
  then show "last (filter P [0..<n]) < n" and "P (last (filter P [0..<n]))"
    by simp_all
qed

lemma hd_filter_upt_le:
  assumes "x < n" and "P x"
  shows "hd (filter P [0..<n]) \<le> x"
proof -
  have mem: "x \<in> set (filter P [0..<n])"
    using assms by simp
  then obtain a as where xs: "filter P [0..<n] = a # as"
    by (cases "filter P [0..<n]") auto
  have "sorted (a # as)"
    using sorted_filter_upt [of P n] by (simp only: xs)
  then have "\<forall>y \<in> set as. a \<le> y"
    by simp
  moreover have "x = a \<or> x \<in> set as"
    using mem by (simp add: xs)
  ultimately show ?thesis
    by (auto simp: xs)
qed

lemma last_filter_upt_ge:
  assumes "x < n" and "P x"
  shows "x \<le> last (filter P [0..<n])"
proof -
  let ?xs = "filter P [0..<n]"
  have mem: "x \<in> set ?xs"
    using assms by simp
  have ne: "?xs \<noteq> []"
  proof
    assume "?xs = []"
    with mem show False by simp
  qed
  then have split: "?xs = butlast ?xs @ [last ?xs]"
    by simp
  have "sorted (butlast ?xs @ [last ?xs])"
    using sorted_filter_upt [of P n] split by simp
  then have "\<forall>y \<in> set (butlast ?xs). y \<le> last ?xs"
    by (simp add: sorted_append)
  moreover have "x \<in> set (butlast ?xs) \<or> x = last ?xs"
    using mem split by (metis Un_iff empty_iff empty_set insert_iff list.simps(15) set_append)
  ultimately show ?thesis
    by auto
qed

lemma hd_filter_upt_zero:
  assumes "0 < n" and "P 0"
  shows "hd (filter P [0..<n]) = 0"
  using hd_filter_upt_le [of 0 n P] assms by simp

lemma last_filter_upt_top:
  assumes "0 < n" and "P (n - 1)"
  shows "last (filter P [0..<n]) = n - 1"
proof -
  have "n - 1 < n"
    using assms(1) by simp
  then have ge: "n - 1 \<le> last (filter P [0..<n])"
    using assms(2) by (rule last_filter_upt_ge)
  have "filter P [0..<n] \<noteq> []"
    using \<open>n - 1 < n\<close> assms(2) by (auto simp: filter_empty_conv)
  then have "last (filter P [0..<n]) < n"
    by (rule last_filter_upt)
  with ge show ?thesis by simp
qed

section \<open>Cropping to the content\<close>

lemma wf_image_row:
  assumes "wf_image img" and "y < im_height img"
  shows "length (im_data img ! y) = im_width img"
proof -
  have "im_data img ! y \<in> set (im_data img)"
    using assms by (simp add: wf_image_def)
  then show ?thesis
    using assms(1) by (simp add: wf_image_def list_all_iff)
qed

lemma channel_difference_zero: "channel_difference a b = 0 \<longleftrightarrow> a = b"
  by (auto simp: channel_difference_def)

lemma pixel_difference_black: "pixel_difference p q = black \<longleftrightarrow> p = q"
  by (cases p; cases q) (auto simp: black_def channel_difference_zero)

lemma getpixel_difference_white:
  assumes "wf_image img" and "x < im_width img" and "y < im_height img"
  shows "getpixel (difference img (Image_new (im_width img) (im_height img) white)) x y
           = pixel_difference (getpixel img x y) white"
proof -
  have len: "length (im_data img) = im_height img"
    using assms(1) by (simp add: wf_image_def)
  have row: "length (im_data img ! y) = im_width img"
    using assms(1,3) by (rule wf_image_row)
  have "map2 (map2 pixel_difference) (im_data img)
          (replicate (im_height img) (replicate (im_width img) white)) ! y
        = map2 pixel_difference (im_data img ! y) (replicate (im_width img) white)"
    using assms(3) len by simp
  moreover have "map2 pixel_difference (im_data img ! y) (replicate (im_width img) white) ! x
        = pixel_difference (im_data img ! y ! x) white"
    using assms(2) row by simp
  ultimately show ?thesis
    by (simp add: getpixel_def difference_def Image_new_def)
qed

lemma difference_white_nonzero:
  assumes "wf_image img" and "x < im_width img" and "y < im_height img"
  shows "getpixel (difference img (Image_new (im_width img) (im_height img) white)) x y \<noteq> black
           \<longleftrightarrow> nonwhite img x y"
  by (simp add: getpixel_difference_white [OF assms] pixel_difference_black nonwhite_def)

lemma getbbox_difference_white:
  assumes "wf_image img"
  shows "getbbox (difference img (Image_new (im_width img) (im_height img) white))
           = (if content_rows img = [] then None else Some (content_box img))"
proof -
  let ?d = "difference img (Image_new (im_width img) (im_height img) white)"
  have w: "im_width ?d = im_width img" and h: "im_height ?d = im_height img"
    by (simp_all add: difference_def)
  have cols: "filter (\<lambda>x. list_ex (\<lambda>y. getpixel ?d x y \<noteq> black) [0..<im_height img])
                [0..<im_width img] = content_cols img"
    unfolding content_cols_def
    by (rule filter_cong [OF refl])
      (simp add: list_ex_iff difference_white_nonzero [OF assms])
  have rows: "filter (\<lambda>y. list_ex (\<lambda>x. getpixel ?d x y \<noteq> black) [0..<im_width img])
                [0..<im_height img] = content_rows img"
    unfolding content_rows_def
    by (rule filter_cong [OF refl])
      (simp add: list_ex_iff difference_white_nonzero [OF assms])
  show ?thesis
    unfolding getbbox_def w h cols rows content_box_def Let_def by simp
qed

lemma auto_crop_white_unfold:
  assumes "wf_image img"
  shows "auto_crop_white img
           = (if content_rows img = [] then img else crop img (content_box img))"
  by (simp add: auto_crop_white_def Let_def getbbox_difference_white [OF assms])

lemma content_cols_iff:
  "x \<in> set (content_cols img)
     \<longleftrightarrow> x < im_width img \<and> (\<exists>y. y < im_height img \<and> nonwhite img x y)"
  by (auto simp: content_cols_def list_ex_iff)

lemma content_rows_iff:
  "y \<in> set (content_rows img)
     \<longleftrightarrow> y < im_height img \<and> (\<exists>x. x < im_width img \<and> nonwhite img x y)"
  by (auto simp: content_rows_def list_ex_iff)

lemma content_cols_bounds:
  assumes "x \<in> set (content_cols img)"
  shows "hd (content_cols img) \<le> x" and "x \<le> last (content_cols img)"
proof -
  let ?P = "\<lambda>x. list_ex (\<lambda>y. nonwhite img x y) [0..<im_height img]"
  have "x < im_width img" and "?P x"
    using assms by (simp_all add: content_cols_def)
  then show "hd (content_cols img) \<le> x" and "x \<le> last (content_cols img)"
    unfolding content_cols_def
    by (rule hd_filter_upt_le, rule last_filter_upt_ge)
qed

lemma content_rows_bounds:
  assumes "y \<in> set (content_rows img)"
  shows "hd (content_rows img) \<le> y" and "y \<le> last (content_rows img)"
proof -
  let ?P = "\<lambda>y. list_ex (\<lambda>x. nonwhite img x y) [0..<im_width img]"
  have "y < im_height img" and "?P y"
    using assms by (simp_all add: content_rows_def)
  then show "hd (content_rows img) \<le> y" and "y \<le> last (content_rows img)"
    unfolding content_rows_def
    by (rule hd_filter_upt_le, rule last_filter_upt_ge)
qed

lemma crop_inside:
  assumes "right \<le> im_width img" and "lower \<le> im_height img"
  shows "crop img (left, upper, right, lower) =
           \<lparr>im_width = right - left, im_height = lower - upper,
            im_data = map (\<lambda>y. map (\<lambda>x. getpixel img x y) [left..<right]) [upper..<lower]\<rparr>"
  using assms by (simp add: crop.simps)

lemma wf_image_crop: "wf_image (crop img box)"
  by (cases box) (simp add: crop.simps wf_image_def list_all_iff)

lemma nonwhite_crop:
  assumes "right \<le> im_width img" and "lower \<le> im_height img"
    and "x < right - left" and "y < lower - upper"
  shows "nonwhite (crop img (left, upper, right, lower)) x y
           \<longleftrightarrow> nonwhite img (left + x) (upper + y)"
  using assms by (simp add: crop_inside nonwhite_def getpixel_def)

lemma crop_whole:
  assumes "wf_image img"
  shows "crop img (0, 0, im_width img, im_height img) = img"
proof -
  have len: "length (im_data img) = im_height img"
    using assms by (simp add: wf_image_def)
  have "map (\<lambda>y. map (\<lambda>x. getpixel img x y) [0..<im_width img]) [0..<im_height img]
          = map (\<lambda>y. im_data img ! y) [0..<im_height img]"
  proof (rule map_cong [OF refl])
    fix y
    assume "y \<in> set [0..<im_height img]"
    then have "length (im_data img ! y) = im_width img"
      using assms by (simp add: wf_image_row)
    then show "map (\<lambda>x. getpixel img x y) [0..<im_width img] = im_data img ! y"
      using map_nth [of "im_data img ! y"] by (simp add: getpixel_def)
  qed
  also have "\<dots> = im_data img"
    using map_nth [of "im_data img"] len by simp
  finally show ?thesis
    by (simp add: crop_inside)
qed

text \<open>An image whose first and last row and column each hold a non-white pixel is kept.\<close>

lemma auto_crop_white_tight:
  assumes "wf_image img" and "0 < im_width img" and "0 < im_height img"
    and top: "\<exists>x. x < im_width img \<and> nonwhite img x 0"
    and bottom: "\<exists>x. x < im_width img \<and> nonwhite img x (im_height img - 1)"
    and left: "\<exists>y. y < im_height img \<and> nonwhite img 0 y"
    and right: "\<exists>y. y < im_height img \<and> nonwhite img (im_width img - 1) y"
  shows "auto_crop_white img = img"
proof -
  let ?Pc = "\<lambda>x. list_ex (\<lambda>y. nonwhite img x y) [0..<im_height img]"
  let ?Pr = "\<lambda>y. list_ex (\<lambda>x. nonwhite img x y) [0..<im_width img]"
  have r0: "?Pr 0" and r1: "?Pr (im_height img - 1)"
    using top bottom by (auto simp: list_ex_iff)
  have c0: "?Pc 0" and c1: "?Pc (im_width img - 1)"
    using left right by (auto simp: list_ex_iff)
  have "0 \<in> set (content_rows img)"
    using r0 assms(3) by (simp add: content_rows_def)
  then have ne: "content_rows img \<noteq> []"
    by auto
  have "hd (content_rows img) = 0"
    unfolding content_rows_def using assms(3) r0 by (rule hd_filter_upt_zero)
  moreover have "last (content_rows img) = im_height img - 1"
    unfolding content_rows_def using assms(3) r1 by (rule last_filter_upt_top)
  moreover have "hd (content_cols img) = 0"
    unfolding content_cols_def using assms(2) c0 by (rule hd_filter_upt_zero)
  moreover have "last (content_cols img) = im_width img - 1"
    unfolding content_cols_def using assms(2) c1 by (rule last_filter_upt_top)
  ultimately have "content_box img = (0, 0, im_width img, im_height img)"
    using assms(2,3) by (simp add: content_box_def)
  then show ?thesis
    using ne by (simp add: auto_crop_white_unfold [OF assms(1)] crop_whole [OF assms(1)])
qed

text \<open>
  The crop to the content box has a non-white pixel in its first and last row and
  column, so a second crop changes nothing.
\<close>

lemma auto_crop_white_crop:
  assumes wf: "wf_image img" and ne: "content_rows img \<noteq> []"
  shows "auto_crop_white (crop img (content_box img)) = crop img (content_box img)"
proof -
  define l where "l = hd (content_cols img)"
  define u where "u = hd (content_rows img)"
  define r where "r = Suc (last (content_cols img))"
  define d where "d = Suc (last (content_rows img))"
  define img' where "img' = crop img (l, u, r, d)"
  have box: "content_box img = (l, u, r, d)"
    by (simp add: content_box_def l_def u_def r_def d_def)
  have "hd (content_rows img) \<in> set (content_rows img)"
    using ne by (rule hd_in_set)
  then have "\<exists>x. x < im_width img \<and> nonwhite img x u"
    by (simp add: content_rows_iff u_def)
  then obtain x0 where x0: "x0 < im_width img" "nonwhite img x0 u"
    by blast
  have u_lt: "u < im_height img"
    using \<open>hd (content_rows img) \<in> set (content_rows img)\<close>
    by (simp add: content_rows_iff u_def)
  have "x0 \<in> set (content_cols img)"
    using x0 u_lt by (auto simp: content_cols_iff)
  then have nec: "content_cols img \<noteq> []"
    by auto
  have hdc: "hd (content_cols img) \<in> set (content_cols img)"
    using nec by (rule hd_in_set)
  have lastc: "last (content_cols img) \<in> set (content_cols img)"
    using nec by (rule last_in_set)
  have lastr: "last (content_rows img) \<in> set (content_rows img)"
    using ne by (rule last_in_set)
  have r_le: "r \<le> im_width img"
    using lastc by (simp add: content_cols_iff r_def)
  have d_le: "d \<le> im_height img"
    using lastr by (simp add: content_rows_iff d_def)
  have cols_in: "l \<le> x \<and> x < r" if "x \<in> set (content_cols img)" for x
    using content_cols_bounds [OF that] by (simp add: l_def r_def)
  have rows_in: "u \<le> y \<and> y < d" if "y \<in> set (content_rows img)" for y
    using content_rows_bounds [OF that] by (simp add: u_def d_def)
  have lr: "l < r"
    using cols_in [OF hdc] by (simp add: l_def)
  have ud: "u < d"
    using rows_in [OF lastr] by (simp add: d_def)
  have w': "im_width img' = r - l" and h': "im_height img' = d - u"
    by (simp_all add: img'_def crop_inside [OF r_le d_le])
  have wf': "wf_image img'"
    unfolding img'_def by (rule wf_image_crop)
  have pix: "nonwhite img' x y \<longleftrightarrow> nonwhite img (l + x) (u + y)"
    if "x < r - l" and "y < d - u" for x y
    unfolding img'_def using r_le d_le that by (rule nonwhite_crop)
  have any: "\<exists>x' y'. x' < r - l \<and> y' < d - u \<and> l + x' = x \<and> u + y' = y"
    if "x < im_width img" and "y < im_height img" and "nonwhite img x y" for x y
  proof -
    have "x \<in> set (content_cols img)" and "y \<in> set (content_rows img)"
      using that by (auto simp: content_cols_iff content_rows_iff)
    then have "l \<le> x \<and> x < r" and "u \<le> y \<and> y < d"
      using cols_in rows_in by blast+
    then have "x - l < r - l \<and> y - u < d - u \<and> l + (x - l) = x \<and> u + (y - u) = y"
      by linarith
    then show ?thesis by blast
  qed
  have top: "\<exists>x. x < im_width img' \<and> nonwhite img' x 0"
  proof -
    obtain x' y' where "x' < r - l" "y' < d - u" "l + x' = x0" "u + y' = u"
      using any [OF x0(1) u_lt x0(2)] by blast
    then have "x' < r - l \<and> nonwhite img' x' 0"
      using pix [of x' 0] x0(2) ud by simp
    then show ?thesis
      unfolding w' by blast
  qed
  have bottom: "\<exists>x. x < im_width img' \<and> nonwhite img' x (im_height img' - 1)"
  proof -
    obtain x1 where x1: "x1 < im_width img" "nonwhite img x1 (d - 1)"
      using lastr by (auto simp: content_rows_iff d_def)
    have "d - 1 < im_height img"
      using d_le ud by simp
    then obtain x' y' where "x' < r - l" "y' < d - u" "l + x' = x1" "u + y' = d - 1"
      using any [OF x1(1) _ x1(2)] by blast
    moreover from this have "y' = d - u - 1"
      by simp
    ultimately have "x' < r - l \<and> nonwhite img' x' (d - u - 1)"
      using pix [of x' y'] x1(2) by simp
    then show ?thesis
      unfolding w' h' by blast
  qed
  have left: "\<exists>y. y < im_height img' \<and> nonwhite img' 0 y"
  proof -
    obtain y0 where y0: "y0 < im_height img" "nonwhite img l y0"
      using hdc by (auto simp: content_cols_iff l_def)
    have "l < im_width img"
      using lr r_le by simp
    then obtain x' y' where "x' < r - l" "y' < d - u" "l + x' = l" "u + y' = y0"
      using any [OF _ y0(1) y0(2)] by blast
    then have "y' < d - u \<and> nonwhite img' 0 y'"
      using pix [of 0 y'] y0(2) lr by simp
    then show ?thesis
      unfolding h' by blast
  qed
  have right: "\<exists>y. y < im_height img' \<and> nonwhite img' (im_width img' - 1) y"
  proof -
    obtain y1 where y1: "y1 < im_height img" "nonwhite img (r - 1) y1"
      using lastc by (auto simp: content_cols_iff r_def)
    have "r - 1 < im_width img"
      using r_le lr by simp
    then obtain x' y' where "x' < r - l" "y' < d - u" "l + x' = r - 1" "u + y' = y1"
      using any [OF _ y1(1) y1(2)] by blast
    moreover from this have "x' = r - l - 1"
      by simp
    ultimately have "y' < d - u \<and> nonwhite img' (r - l - 1) y'"
      using pix [of x' y'] y1(2) by simp
    then show ?thesis
      unfolding w' h' by blast
  qed
  have "0 < im_width img'" and "0 < im_height img'"
    using lr ud by (simp_all add: w' h')
  with wf' have "auto_crop_white img' = img'"
    using top bottom left right by (rule auto_crop_white_tight)
  then show ?thesis
    by (simp only: img'_def box)
qed

lemma all_white_no_content:
  assumes "wf_image img" and "all_white img"
  shows "content_rows img = []"
proof -
  have "\<not> nonwhite img x y" if "x < im_width img" and "y < im_height img" for x y
  proof -
    have row: "im_data img ! y \<in> set (im_data img)"
      using assms(1) that(2) by (simp add: wf_image_def)
    have "length (im_data img ! y) = im_width img"
      using assms(1) that(2) by (rule wf_image_row)
    then have "im_data img ! y ! x \<in> set (im_data img ! y)"
      using that(1) by simp
    with row assms(2) have "im_data img ! y ! x = white"
      by (auto simp: all_white_def list_all_iff)
    then show ?thesis
      by (simp add: nonwhite_def getpixel_def)
  qed
  then have "y \<notin> set (content_rows img)" for y
    by (auto simp: content_rows_iff)
  then show ?thesis
    by (cases "content_rows img") auto
qed

text \<open>
  C8. For every image (a raster whose rows fill its size), cropping twice gives the same
  image as cropping once, and the cropped image is again such a raster; an image whose
  pixels are all white is returned unchanged.
\<close>

theorem auto_crop_white_idempotent:
  assumes "wf_image img"
  shows "auto_crop_white (auto_crop_white img) = auto_crop_white img
    \<and> wf_image (auto_crop_white img)
    \<and> (all_white img \<longrightarrow> auto_crop_white img = img)"
proof -
  have idem: "auto_crop_white (auto_crop_white img) = auto_crop_white img"
  proof (cases "content_rows img = []")
    case True
    then have "auto_crop_white img = img"
      by (simp add: auto_crop_white_unfold [OF assms])
    then show ?thesis by simp
  next
    case False
    then have "auto_crop_white img = crop img (content_box img)"
      by (simp add: auto_crop_white_unfold [OF assms])
    then show ?thesis
      using auto_crop_white_crop [OF assms False] by simp
  qed
  have wf: "wf_image (auto_crop_white img)"
    using assms by (simp add: auto_crop_white_unfold [OF assms] wf_image_crop)
  have white: "all_white img \<longrightarrow> auto_crop_white img = img"
    using all_white_no_content [OF assms]
    by (simp add: auto_crop_white_unfold [OF assms])
  from idem wf white show ?thesis by (intro conjI)
qed

theorem auto_crop_white_idempotent_witness:
  "wf_image dot_image
   \<and> auto_crop_white dot_image = \<lparr>im_width = 1, im_height = 1, im_data = [[black]]\<rparr>
   \<and> auto_crop_white (auto_crop_white dot_image) = auto_crop_white dot_image
   \<and> wf_image (Image_new 2 2 white)
   \<and> all_white (Image_new 2 2 white)
   \<and> auto_crop_white (Image_new 2 2 white) = Image_new 2 2 white"
proof -
  have w1: "wf_image dot_image"
    by (simp add: wf_image_def dot_image_def)
  have rows: "content_rows dot_image = [1]" and cols: "content_cols dot_image = [1]"
    by code_simp+
  have c: "auto_crop_white dot_image = \<lparr>im_width = 1, im_height = 1, im_data = [[black]]\<rparr>"
    unfolding auto_crop_white_unfold [OF w1] rows cols content_box_def
    by (simp add: crop.simps dot_image_def getpixel_def upt_rec)
  have w2: "wf_image (Image_new 2 2 white)"
    by (simp add: wf_image_def Image_new_def list_all_iff)
  have a2: "all_white (Image_new 2 2 white)"
    by (simp add: all_white_def Image_new_def list_all_iff)
  from auto_crop_white_idempotent [OF w1] auto_crop_white_idempotent [OF w2] w1 c w2 a2
  show ?thesis by simp
qed

end
